theory Spec2Isabelle
  imports Main "HOL-Library.Multiset"
begin

section \<open>Values and errors\<close>

text \<open>
  The two modules \<^verbatim>\<open>seller.py\<close> (Ozon) and \<^verbatim>\<open>market.py\<close> (Yandex Market) are embedded
  function by function. A Python \<^verbatim>\<open>str\<close> is represented by the list of bytes of its UTF-8
  encoding: equality of strings, splitting at the ASCII character \<^verbatim>\<open>.\<close> and the removal
  of every character outside \<^verbatim>\<open>0-9\<close> act on the encoding exactly as they act on the code
  points. Exceptions are values of the type \<open>error\<close>; a function that can raise returns
  \<open>error + 'a\<close>.
\<close>

datatype error = ValueError | TypeError | AttributeError | IndexError | HTTPError

text \<open>
  A cell of the spreadsheet as \<^verbatim>\<open>pandas\<close> delivers it (an integer or a text), or the
  \<^verbatim>\<open>None\<close> that \<^verbatim>\<open>dict.get\<close> returns for an absent key.
\<close>

datatype cell = CNone | CInt int | CStr string

text \<open>The values of the request and response bodies (JSON).\<close>

datatype pyval =
    PyNone
  | PyInt int
  | PyStr string
  | PyList "pyval list"
  | PyDict "(string \<times> pyval) list"

type_synonym watch = "(string \<times> cell) list"

text \<open>\<^verbatim>\<open>watch.get(key)\<close> on a row of the spreadsheet.\<close>

definition watch_get :: "watch \<Rightarrow> string \<Rightarrow> cell" where
  "watch_get w k = (case map_of w k of None \<Rightarrow> CNone | Some v \<Rightarrow> v)"

text \<open>
  \<^verbatim>\<open>x.get(key)\<close> on a value of a response: only a dictionary has the method; on anything
  else Python raises \<^verbatim>\<open>AttributeError\<close>.
\<close>

fun py_get :: "pyval \<Rightarrow> string \<Rightarrow> error + pyval" where
  "py_get (PyDict d) k = Inr (case map_of d k of None \<Rightarrow> PyNone | Some v \<Rightarrow> v)"
| "py_get _ k = Inl AttributeError"

section \<open>Batcher: \<^verbatim>\<open>divide\<close>\<close>

text \<open>
  \<^verbatim>\<open>for i in range(0, len(lst), n): yield lst[i : i + n]\<close>. The loop index runs over
  \<open>0, n, 2n, \<dots>\<close> below \<open>len(lst)\<close>; the slice is \<open>take n (drop i lst)\<close>.
\<close>

function divide_from :: "'a list \<Rightarrow> nat \<Rightarrow> nat \<Rightarrow> 'a list list" where
  "divide_from lst n i =
     (if 0 < n \<and> i < length lst then take n (drop i lst) # divide_from lst n (i + n) else [])"
  by pat_completeness auto
termination
  by (relation "measure (\<lambda>(lst, n, i). length lst - i)") auto

declare divide_from.simps [simp del]

text \<open>
  \<^verbatim>\<open>list(divide(lst, n))\<close>: \<^verbatim>\<open>range\<close> raises \<^verbatim>\<open>ValueError\<close> for a step of zero and is empty
  for a negative step (its start \<open>0\<close> is not above its stop).
\<close>

definition divide_lst :: "'a list \<Rightarrow> int \<Rightarrow> error + 'a list list" where
  "divide_lst lst n =
     (if n = 0 then Inl ValueError
      else if n < 0 then Inr []
      else Inr (divide_from lst (nat n) 0))"

section \<open>Strings, \<^verbatim>\<open>str\<close> and \<^verbatim>\<open>int\<close>\<close>

definition is_digit :: "char \<Rightarrow> bool" where
  "is_digit c = (c \<in> set ''0123456789'')"

definition digit_val :: "char \<Rightarrow> nat" where
  "digit_val c = of_char c - 48"

text \<open>The ASCII white space that \<^verbatim>\<open>int\<close> skips around a number: tab, line feed, vertical
  tab, form feed, carriage return and the space.\<close>

definition is_space :: "char \<Rightarrow> bool" where
  "is_space c = (c \<in> set [CHR 0x09, CHR 0x0A, CHR 0x0B, CHR 0x0C, CHR 0x0D, CHR 0x20])"

text \<open>\<^verbatim>\<open>str(n)\<close> for an integer: its decimal digits, after a minus sign when negative. (An
  integer of the spreadsheet comes from a floating-point cell and has at most 309 digits,
  far below the interpreter's limit of 4300 digits for \<^verbatim>\<open>str\<close>.)\<close>

fun str_nat :: "nat \<Rightarrow> string" where
  "str_nat n =
     (if n < 10 then [''0123456789'' ! n]
      else str_nat (n div 10) @ [''0123456789'' ! (n mod 10)])"

declare str_nat.simps [simp del]

definition str_int :: "int \<Rightarrow> string" where
  "str_int n = (if n < 0 then CHR ''-'' # str_nat (nat (- n)) else str_nat (nat n))"

text \<open>\<^verbatim>\<open>str(x)\<close> for a cell of the feed.\<close>

fun py_str :: "cell \<Rightarrow> string" where
  "py_str CNone = ''None''"
| "py_str (CInt n) = str_int n"
| "py_str (CStr s) = s"

text \<open>
  \<^verbatim>\<open>int(s)\<close> for a text \<open>s\<close>, base 10, as CPython 3.11 reads it. A text that is not ASCII
  is first rewritten, character by character: a Unicode white space becomes a space, a
  Unicode decimal digit becomes the ASCII digit of its value, and at the first other
  character beyond ASCII the text is cut and closed with \<^verbatim>\<open>?\<close>. The tables are those of
  the interpreter (Unicode 14): the white space beyond ASCII, and the code points of the
  digit zero of every script, each followed by its digits one to nine.
\<close>

definition unicode_spaces :: "nat list" where
  "unicode_spaces =
     [0x85, 0xA0, 0x1680, 0x2000, 0x2001, 0x2002, 0x2003, 0x2004, 0x2005, 0x2006, 0x2007,
      0x2008, 0x2009, 0x200A, 0x2028, 0x2029, 0x202F, 0x205F, 0x3000]"

definition unicode_zeros :: "nat list" where
  "unicode_zeros =
     [0x660, 0x6F0, 0x7C0, 0x966, 0x9E6, 0xA66, 0xAE6, 0xB66,
      0xBE6, 0xC66, 0xCE6, 0xD66, 0xDE6, 0xE50, 0xED0, 0xF20,
      0x1040, 0x1090, 0x17E0, 0x1810, 0x1946, 0x19D0, 0x1A80, 0x1A90,
      0x1B50, 0x1BB0, 0x1C40, 0x1C50, 0xA620, 0xA8D0, 0xA900, 0xA9D0,
      0xA9F0, 0xAA50, 0xABF0, 0xFF10, 0x104A0, 0x10D30, 0x11066, 0x110F0,
      0x11136, 0x111D0, 0x112F0, 0x11450, 0x114D0, 0x11650, 0x116C0, 0x11730,
      0x118E0, 0x11950, 0x11C50, 0x11D50, 0x11DA0, 0x16A60, 0x16AC0, 0x16B50,
      0x1D7CE, 0x1D7D8, 0x1D7E2, 0x1D7EC, 0x1D7F6, 0x1E140, 0x1E2F0, 0x1E950,
      0x1FBF0]"

definition unicode_decimal :: "nat \<Rightarrow> nat option" where
  "unicode_decimal cp =
     (case find (\<lambda>z. z \<le> cp \<and> cp < z + 10) unicode_zeros of
        None \<Rightarrow> None
      | Some z \<Rightarrow> Some (cp - z))"

text \<open>
  The characters of a text, read from its UTF-8 bytes: an ASCII character is one byte
  below \<open>0x80\<close>; a character beyond ASCII is a lead byte with one, two or three
  continuation bytes, which give its code point. A list of bytes that is not UTF-8 stands
  for no text and has no characters.
\<close>

datatype code_point = Ascii char | Beyond nat

definition is_continuation :: "char \<Rightarrow> bool" where
  "is_continuation c \<longleftrightarrow> 0x80 \<le> (of_char c :: nat) \<and> (of_char c :: nat) < 0xC0"

definition continuation :: "char \<Rightarrow> nat" where
  "continuation c = of_char c - 0x80"

fun utf8_decode :: "string \<Rightarrow> code_point list option" where
  "utf8_decode [] = Some []"
| "utf8_decode (c # cs) =
     (if (of_char c :: nat) < 0x80 then map_option ((#) (Ascii c)) (utf8_decode cs)
      else if 0xC0 \<le> (of_char c :: nat) \<and> (of_char c :: nat) < 0xE0 then
        (case cs of
           c1 # rest \<Rightarrow>
             if is_continuation c1
             then map_option ((#) (Beyond ((of_char c - 0xC0) * 0x40 + continuation c1)))
                    (utf8_decode rest)
             else None
         | _ \<Rightarrow> None)
      else if 0xE0 \<le> (of_char c :: nat) \<and> (of_char c :: nat) < 0xF0 then
        (case cs of
           c1 # c2 # rest \<Rightarrow>
             if is_continuation c1 \<and> is_continuation c2
             then map_option
                    ((#) (Beyond ((of_char c - 0xE0) * 0x1000 + continuation c1 * 0x40
                                  + continuation c2)))
                    (utf8_decode rest)
             else None
         | _ \<Rightarrow> None)
      else if 0xF0 \<le> (of_char c :: nat) \<and> (of_char c :: nat) < 0xF8 then
        (case cs of
           c1 # c2 # c3 # rest \<Rightarrow>
             if is_continuation c1 \<and> is_continuation c2 \<and> is_continuation c3
             then map_option
                    ((#) (Beyond ((of_char c - 0xF0) * 0x40000 + continuation c1 * 0x1000
                                  + continuation c2 * 0x40 + continuation c3)))
                    (utf8_decode rest)
             else None
         | _ \<Rightarrow> None)
      else None)"

text \<open>
  The rewriting (\<^verbatim>\<open>_PyUnicode_TransformDecimalAndSpaceToASCII\<close>): a character below 127
  is kept; the character 127 and the characters beyond ASCII that are neither white space
  nor decimal digits end the text with \<^verbatim>\<open>?\<close>.
\<close>

fun decimal_and_space_to_ascii :: "code_point list \<Rightarrow> string" where
  "decimal_and_space_to_ascii [] = []"
| "decimal_and_space_to_ascii (Ascii c # cps) =
     (if c \<noteq> CHR 0x7F then c # decimal_and_space_to_ascii cps else ''?'')"
| "decimal_and_space_to_ascii (Beyond cp # cps) =
     (if cp \<in> set unicode_spaces then CHR '' '' # decimal_and_space_to_ascii cps
      else (case unicode_decimal cp of
              None \<Rightarrow> ''?''
            | Some d \<Rightarrow> (''0123456789'' ! d) # decimal_and_space_to_ascii cps))"

text \<open>
  The ASCII text is then read: white space is skipped at both ends, one sign \<^verbatim>\<open>+\<close> or
  \<^verbatim>\<open>-\<close> may come first, then decimal digits, where a single underscore may stand between
  two digits; anything else is a \<^verbatim>\<open>ValueError\<close>, and so is a number of more digits than
  the interpreter's limit \<^verbatim>\<open>sys.get_int_max_str_digits()\<close>, 4300 unless the interpreter
  is told otherwise. \<open>scan_digits\<close> reads the digits and underscores (its flag says whether
  the character before was a digit) and returns the value, the number of digits and the
  rest of the text.
\<close>

definition int_max_str_digits :: nat where
  "int_max_str_digits = 4300"

fun scan_digits :: "bool \<Rightarrow> nat \<Rightarrow> nat \<Rightarrow> string \<Rightarrow> (nat \<times> nat \<times> string) option" where
  "scan_digits prev_digit acc digits [] =
     (if prev_digit then Some (acc, digits, []) else None)"
| "scan_digits prev_digit acc digits (c # cs) =
     (if is_digit c then scan_digits True (10 * acc + digit_val c) (Suc digits) cs
      else if c = CHR ''_'' then
        (if prev_digit then scan_digits False acc digits cs else None)
      else if prev_digit then Some (acc, digits, c # cs) else None)"

fun strip_sign :: "string \<Rightarrow> bool \<times> string" where
  "strip_sign [] = (False, [])"
| "strip_sign (c # cs) =
     (if c = CHR ''+'' then (False, cs)
      else if c = CHR ''-'' then (True, cs)
      else (False, c # cs))"

definition long_from_string :: "string \<Rightarrow> error + int" where
  "long_from_string s =
     (case strip_sign (dropWhile is_space s) of
        (negative, body) \<Rightarrow>
          (case scan_digits False 0 0 body of
             None \<Rightarrow> Inl ValueError
           | Some (v, digits, rest) \<Rightarrow>
               if int_max_str_digits < digits then Inl ValueError
               else if dropWhile is_space rest = []
               then Inr (if negative then - int v else int v)
               else Inl ValueError))"

definition int_of_str :: "string \<Rightarrow> error + int" where
  "int_of_str s =
     (if list_all (\<lambda>c. (of_char c :: nat) < 0x80) s then long_from_string s
      else (case utf8_decode s of
              None \<Rightarrow> Inl ValueError
            | Some cps \<Rightarrow> long_from_string (decimal_and_space_to_ascii cps)))"

text \<open>\<^verbatim>\<open>int(x)\<close> for a cell of the feed; \<^verbatim>\<open>int(None)\<close> is a \<^verbatim>\<open>TypeError\<close>.\<close>

fun py_int :: "cell \<Rightarrow> error + int" where
  "py_int CNone = Inl TypeError"
| "py_int (CInt n) = Inr n"
| "py_int (CStr s) = int_of_str s"

section \<open>Price normalizer: \<^verbatim>\<open>price_conversion\<close>\<close>

text \<open>\<^verbatim>\<open>s.split(sep)\<close> for a separator of one character: the segments between its
  occurrences, of which there is always at least one.\<close>

fun split_on :: "char \<Rightarrow> string \<Rightarrow> string list" where
  "split_on sep [] = [[]]"
| "split_on sep (c # cs) =
     (if c = sep then [] # split_on sep cs
      else (case split_on sep cs of
              [] \<Rightarrow> [[c]]
            | seg # segs \<Rightarrow> (c # seg) # segs))"

text \<open>\<^verbatim>\<open>re.sub("[^0-9]", "", s)\<close>: every character outside \<^verbatim>\<open>0-9\<close> is deleted.\<close>

definition re_sub_non_digits :: "string \<Rightarrow> string" where
  "re_sub_non_digits s = filter is_digit s"

text \<open>
  \<^verbatim>\<open>return re.sub("[^0-9]", "", price.split(".")[0])\<close>. Only a text has \<^verbatim>\<open>split\<close>: another
  value raises \<^verbatim>\<open>AttributeError\<close>, as the docstring says.
\<close>

fun price_conversion :: "cell \<Rightarrow> error + string" where
  "price_conversion (CStr price) =
     (case split_on (CHR ''.'') price of
        [] \<Rightarrow> Inl IndexError
      | seg # _ \<Rightarrow> Inr (re_sub_non_digits seg))"
| "price_conversion _ = Inl AttributeError"

section \<open>Quantity normalizer\<close>

text \<open>
  The rule both \<^verbatim>\<open>create_stocks\<close> apply to the cell \<^verbatim>\<open>watch.get("Kolichestvo")\<close> (the key
  is in Cyrillic in the source):
  \<^verbatim>\<open>
  count = str(watch.get(...))
  if count == ">10": stock = 100
  elif count == "1": stock = 0
  else: stock = int(watch.get(...))
  \<close>
\<close>

definition normalize_quantity :: "cell \<Rightarrow> error + int" where
  "normalize_quantity q =
     (let count = py_str q in
      if count = ''>10'' then Inr 100
      else if count = ''1'' then Inr 0
      else py_int q)"

section \<open>Reconciler: \<^verbatim>\<open>create_stocks\<close> and \<^verbatim>\<open>create_prices\<close>\<close>

text \<open>The three columns of the feed the code reads; the source writes the keys in Cyrillic
  (\<^verbatim>\<open>Kod\<close>, \<^verbatim>\<open>Kolichestvo\<close>, \<^verbatim>\<open>Tsena\<close>), here in UTF-8.\<close>

definition key_code :: string where
  "key_code = [CHR 0xD0, CHR 0x9A, CHR 0xD0, CHR 0xBE, CHR 0xD0, CHR 0xB4]"

definition key_count :: string where
  "key_count =
     [CHR 0xD0, CHR 0x9A, CHR 0xD0, CHR 0xBE, CHR 0xD0, CHR 0xBB, CHR 0xD0, CHR 0xB8,
      CHR 0xD1, CHR 0x87, CHR 0xD0, CHR 0xB5, CHR 0xD1, CHR 0x81, CHR 0xD1, CHR 0x82,
      CHR 0xD0, CHR 0xB2, CHR 0xD0, CHR 0xBE]"

definition key_price :: string where
  "key_price = [CHR 0xD0, CHR 0xA6, CHR 0xD0, CHR 0xB5, CHR 0xD0, CHR 0xBD, CHR 0xD0, CHR 0xB0]"

text \<open>\<^verbatim>\<open>str(watch.get("Kod"))\<close>, the text compared with the listed offers.\<close>

definition watch_code :: "watch \<Rightarrow> pyval" where
  "watch_code w = PyStr (py_str (watch_get w key_code))"

text \<open>
  \<^verbatim>\<open>seller.create_stocks\<close>. The first loop runs over the feed; \<^verbatim>\<open>offer_ids\<close> is the list
  of the caller, which \<^verbatim>\<open>offer_ids.remove(...)\<close> changes in place (\<open>remove1\<close> deletes the
  first equal element). The functions return what they return or raise, together with
  the content of the caller's list when they stop.
\<close>

fun seller_stocks_loop ::
  "watch list \<Rightarrow> pyval list \<Rightarrow> pyval list \<Rightarrow> (error + pyval list) \<times> pyval list" where
  "seller_stocks_loop [] offer_ids stocks = (Inr stocks, offer_ids)"
| "seller_stocks_loop (w # rest) offer_ids stocks =
     (if watch_code w \<in> set offer_ids then
        (case normalize_quantity (watch_get w key_count) of
           Inl e \<Rightarrow> (Inl e, offer_ids)
         | Inr stock \<Rightarrow>
             seller_stocks_loop rest (remove1 (watch_code w) offer_ids)
               (stocks @ [PyDict [(''offer_id'', watch_code w), (''stock'', PyInt stock)]]))
      else seller_stocks_loop rest offer_ids stocks)"

definition seller_create_stocks ::
  "watch list \<Rightarrow> pyval list \<Rightarrow> (error + pyval list) \<times> pyval list" where
  "seller_create_stocks watch_remnants offer_ids =
     (case seller_stocks_loop watch_remnants offer_ids [] of
        (Inl e, offer_ids') \<Rightarrow> (Inl e, offer_ids')
      | (Inr stocks, offer_ids') \<Rightarrow>
          (Inr (stocks @
                map (\<lambda>offer_id. PyDict [(''offer_id'', offer_id), (''stock'', PyInt 0)])
                  offer_ids'),
           offer_ids'))"

text \<open>
  \<^verbatim>\<open>datetime.datetime.utcnow()\<close> is an input, the reading of the clock in UTC;
  \<^verbatim>\<open>isoformat()\<close> writes \<^verbatim>\<open>YYYY-MM-DDTHH:MM:SS\<close>, and the microseconds after a dot only
  when they are not zero.
\<close>

record datetime =
  year :: nat
  month :: nat
  day :: nat
  hour :: nat
  minute :: nat
  second :: nat
  microsecond :: nat

definition zero_pad :: "nat \<Rightarrow> nat \<Rightarrow> string" where
  "zero_pad width n = replicate (width - length (str_nat n)) (CHR ''0'') @ str_nat n"

definition isoformat :: "datetime \<Rightarrow> string" where
  "isoformat dt =
     zero_pad 4 (year dt) @ ''-'' @ zero_pad 2 (month dt) @ ''-'' @ zero_pad 2 (day dt)
     @ ''T'' @ zero_pad 2 (hour dt) @ '':'' @ zero_pad 2 (minute dt)
     @ '':'' @ zero_pad 2 (second dt)
     @ (if microsecond dt = 0 then [] else ''.'' @ zero_pad 6 (microsecond dt))"

text \<open>\<^verbatim>\<open>date = str(datetime.datetime.utcnow().replace(microsecond=0).isoformat() + "Z")\<close>\<close>

definition stock_date :: "datetime \<Rightarrow> string" where
  "stock_date now = isoformat (now\<lparr>microsecond := 0\<rparr>) @ ''Z''"

text \<open>\<^verbatim>\<open>market.create_stocks\<close>: the same two loops; \<^verbatim>\<open>date\<close> is computed once, before them.\<close>

fun market_stocks_loop ::
  "string \<Rightarrow> string \<Rightarrow> watch list \<Rightarrow> pyval list \<Rightarrow> pyval list
     \<Rightarrow> (error + pyval list) \<times> pyval list" where
  "market_stocks_loop date warehouse_id [] offer_ids stocks = (Inr stocks, offer_ids)"
| "market_stocks_loop date warehouse_id (w # rest) offer_ids stocks =
     (if watch_code w \<in> set offer_ids then
        (case normalize_quantity (watch_get w key_count) of
           Inl e \<Rightarrow> (Inl e, offer_ids)
         | Inr stock \<Rightarrow>
             market_stocks_loop date warehouse_id rest (remove1 (watch_code w) offer_ids)
               (stocks @
                [PyDict [(''sku'', watch_code w),
                         (''warehouseId'', PyStr warehouse_id),
                         (''items'', PyList [PyDict [(''count'', PyInt stock),
                                                     (''type'', PyStr ''FIT''),
                                                     (''updatedAt'', PyStr date)]])]]))
      else market_stocks_loop date warehouse_id rest offer_ids stocks)"

definition market_create_stocks ::
  "datetime \<Rightarrow> watch list \<Rightarrow> pyval list \<Rightarrow> string \<Rightarrow> (error + pyval list) \<times> pyval list" where
  "market_create_stocks now watch_remnants offer_ids warehouse_id =
     (let date = stock_date now in
      case market_stocks_loop date warehouse_id watch_remnants offer_ids [] of
        (Inl e, offer_ids') \<Rightarrow> (Inl e, offer_ids')
      | (Inr stocks, offer_ids') \<Rightarrow>
          (Inr (stocks @
                map (\<lambda>offer_id.
                       PyDict [(''sku'', offer_id),
                               (''warehouseId'', PyStr warehouse_id),
                               (''items'', PyList [PyDict [(''count'', PyInt 0),
                                                           (''type'', PyStr ''FIT''),
                                                           (''updatedAt'', PyStr date)]])])
                  offer_ids'),
           offer_ids'))"

text \<open>
  \<^verbatim>\<open>seller.create_prices\<close> and \<^verbatim>\<open>market.create_prices\<close>: one loop over the feed, which
  only tests membership in \<^verbatim>\<open>offer_ids\<close>; the list is threaded through to say what the
  caller finds in it afterwards.
\<close>

fun seller_prices_loop ::
  "watch list \<Rightarrow> pyval list \<Rightarrow> pyval list \<Rightarrow> (error + pyval list) \<times> pyval list" where
  "seller_prices_loop [] offer_ids prices = (Inr prices, offer_ids)"
| "seller_prices_loop (w # rest) offer_ids prices =
     (if watch_code w \<in> set offer_ids then
        (case price_conversion (watch_get w key_price) of
           Inl e \<Rightarrow> (Inl e, offer_ids)
         | Inr p \<Rightarrow>
             seller_prices_loop rest offer_ids
               (prices @
                [PyDict [(''auto_action_enabled'', PyStr ''UNKNOWN''),
                         (''currency_code'', PyStr ''RUB''),
                         (''offer_id'', watch_code w),
                         (''old_price'', PyStr ''0''),
                         (''price'', PyStr p)]]))
      else seller_prices_loop rest offer_ids prices)"

definition seller_create_prices ::
  "watch list \<Rightarrow> pyval list \<Rightarrow> (error + pyval list) \<times> pyval list" where
  "seller_create_prices watch_remnants offer_ids = seller_prices_loop watch_remnants offer_ids []"

text \<open>In \<^verbatim>\<open>market.py\<close> the price is \<^verbatim>\<open>int(price_conversion(...))\<close>.\<close>

definition market_price_value :: "cell \<Rightarrow> error + int" where
  "market_price_value c =
     (case price_conversion c of Inl e \<Rightarrow> Inl e | Inr p \<Rightarrow> int_of_str p)"

fun market_prices_loop ::
  "watch list \<Rightarrow> pyval list \<Rightarrow> pyval list \<Rightarrow> (error + pyval list) \<times> pyval list" where
  "market_prices_loop [] offer_ids prices = (Inr prices, offer_ids)"
| "market_prices_loop (w # rest) offer_ids prices =
     (if watch_code w \<in> set offer_ids then
        (case market_price_value (watch_get w key_price) of
           Inl e \<Rightarrow> (Inl e, offer_ids)
         | Inr v \<Rightarrow>
             market_prices_loop rest offer_ids
               (prices @
                [PyDict [(''id'', watch_code w),
                         (''price'', PyDict [(''value'', PyInt v),
                                             (''currencyId'', PyStr ''RUR'')])]]))
      else market_prices_loop rest offer_ids prices)"

definition market_create_prices ::
  "watch list \<Rightarrow> pyval list \<Rightarrow> (error + pyval list) \<times> pyval list" where
  "market_create_prices watch_remnants offer_ids = market_prices_loop watch_remnants offer_ids []"

text \<open>The price of the docstring of \<^verbatim>\<open>price_conversion\<close>: \<^verbatim>\<open>5'990.00\<close>, a space, the three
  Cyrillic letters of the currency (two bytes each) and a dot.\<close>

definition price_example :: string where
  "price_example =
     [CHR ''5'', CHR 0x27, CHR ''9'', CHR ''9'', CHR ''0'', CHR ''.'', CHR ''0'', CHR ''0'',
      CHR 0x20, CHR 0xD1, CHR 0x80, CHR 0xD1, CHR 0x83, CHR 0xD0, CHR 0xB1, CHR ''.'']"

section \<open>Catalog fetcher: \<^verbatim>\<open>get_offer_ids\<close>\<close>

text \<open>
  The value \<^verbatim>\<open>get_product_list\<close> returns, in the shape its docstring gives: for Ozon the
  page \<^verbatim>\<open>items\<close>, the declared \<^verbatim>\<open>total\<close> and the cursor \<^verbatim>\<open>last_id\<close>; for Yandex Market the
  page \<^verbatim>\<open>offerMappingEntries\<close> and \<^verbatim>\<open>paging\<close>. The request itself is a parameter of the
  model: a function of the number of requests made so far and of the cursor sent, which
  answers with an error (\<^verbatim>\<open>raise_for_status\<close>), with \<^verbatim>\<open>None\<close> (a body without
  \<^verbatim>\<open>result\<close>) or with a page.
\<close>

record ozon_result =
  items :: "pyval list"
  total :: pyval
  last_id :: pyval

record market_result =
  offerMappingEntries :: "pyval list"
  paging :: pyval

text \<open>The truth value Python gives a value in \<^verbatim>\<open>if not page\<close>.\<close>

fun py_truthy :: "pyval \<Rightarrow> bool" where
  "py_truthy PyNone = False"
| "py_truthy (PyInt n) = (n \<noteq> 0)"
| "py_truthy (PyStr s) = (s \<noteq> [])"
| "py_truthy (PyList xs) = (xs \<noteq> [])"
| "py_truthy (PyDict d) = (d \<noteq> [])"

text \<open>
  The \<^verbatim>\<open>while True\<close> loop of \<^verbatim>\<open>seller.get_offer_ids\<close>; its variable \<^verbatim>\<open>last_id\<close> is
  \<open>cursor\<close> here, \<open>last_id\<close> being the field of the page. The loop may run forever; the
  result \<open>None\<close> of the model says so.
\<close>

partial_function (option) seller_product_pages ::
  "(nat \<Rightarrow> pyval \<Rightarrow> error + ozon_result option) \<Rightarrow> nat \<Rightarrow> pyval \<Rightarrow> pyval list
     \<Rightarrow> (error + pyval list) option" where
  "seller_product_pages get_product_list k cursor product_list =
     (case get_product_list k cursor of
        Inl e \<Rightarrow> Some (Inl e)
      | Inr None \<Rightarrow> Some (Inl AttributeError)
      | Inr (Some some_prod) \<Rightarrow>
          (if total some_prod = PyInt (int (length (product_list @ items some_prod)))
           then Some (Inr (product_list @ items some_prod))
           else seller_product_pages get_product_list (Suc k) (last_id some_prod)
                  (product_list @ items some_prod)))"

fun seller_offer_ids_loop :: "pyval list \<Rightarrow> pyval list \<Rightarrow> error + pyval list" where
  "seller_offer_ids_loop [] offer_ids = Inr offer_ids"
| "seller_offer_ids_loop (product # rest) offer_ids =
     (case py_get product ''offer_id'' of
        Inl e \<Rightarrow> Inl e
      | Inr v \<Rightarrow> seller_offer_ids_loop rest (offer_ids @ [v]))"

definition seller_get_offer_ids ::
  "(nat \<Rightarrow> pyval \<Rightarrow> error + ozon_result option) \<Rightarrow> (error + pyval list) option" where
  "seller_get_offer_ids get_product_list =
     (case seller_product_pages get_product_list 0 (PyStr []) [] of
        None \<Rightarrow> None
      | Some (Inl e) \<Rightarrow> Some (Inl e)
      | Some (Inr product_list) \<Rightarrow> Some (seller_offer_ids_loop product_list []))"

text \<open>The same for \<^verbatim>\<open>market.get_offer_ids\<close>, which stops at a page whose
  \<^verbatim>\<open>nextPageToken\<close> is false.\<close>

partial_function (option) market_product_pages ::
  "(nat \<Rightarrow> pyval \<Rightarrow> error + market_result option) \<Rightarrow> nat \<Rightarrow> pyval \<Rightarrow> pyval list
     \<Rightarrow> (error + pyval list) option" where
  "market_product_pages get_product_list k page product_list =
     (case get_product_list k page of
        Inl e \<Rightarrow> Some (Inl e)
      | Inr None \<Rightarrow> Some (Inl AttributeError)
      | Inr (Some some_prod) \<Rightarrow>
          (case py_get (paging some_prod) ''nextPageToken'' of
             Inl e \<Rightarrow> Some (Inl e)
           | Inr page' \<Rightarrow>
               if \<not> py_truthy page'
               then Some (Inr (product_list @ offerMappingEntries some_prod))
               else market_product_pages get_product_list (Suc k) page'
                      (product_list @ offerMappingEntries some_prod)))"

fun market_offer_ids_loop :: "pyval list \<Rightarrow> pyval list \<Rightarrow> error + pyval list" where
  "market_offer_ids_loop [] offer_ids = Inr offer_ids"
| "market_offer_ids_loop (product # rest) offer_ids =
     (case py_get product ''offer'' of
        Inl e \<Rightarrow> Inl e
      | Inr offer \<Rightarrow>
          (case py_get offer ''shopSku'' of
             Inl e \<Rightarrow> Inl e
           | Inr v \<Rightarrow> market_offer_ids_loop rest (offer_ids @ [v])))"

definition market_get_offer_ids ::
  "(nat \<Rightarrow> pyval \<Rightarrow> error + market_result option) \<Rightarrow> (error + pyval list) option" where
  "market_get_offer_ids get_product_list =
     (case market_product_pages get_product_list 0 (PyStr []) [] of
        None \<Rightarrow> None
      | Some (Inl e) \<Rightarrow> Some (Inl e)
      | Some (Inr product_list) \<Rightarrow> Some (market_offer_ids_loop product_list []))"

text \<open>
  A finite sequence of pages \<open>ps\<close> as a run of the loop meets it: the cursor of the first
  request is the empty text, the cursor of each later request is what the page before
  gave; the server \<open>serves\<close> the sequence when it answers the \<open>k\<close>-th request, made with
  that cursor, with the \<open>k\<close>-th page.
\<close>

fun ozon_cursor :: "ozon_result list \<Rightarrow> nat \<Rightarrow> pyval" where
  "ozon_cursor ps 0 = PyStr []"
| "ozon_cursor ps (Suc k) = last_id (ps ! k)"

definition ozon_serves ::
  "(nat \<Rightarrow> pyval \<Rightarrow> error + ozon_result option) \<Rightarrow> ozon_result list \<Rightarrow> bool" where
  "ozon_serves get_product_list ps \<longleftrightarrow>
     (\<forall>k<length ps. get_product_list k (ozon_cursor ps k) = Inr (Some (ps ! k)))"

definition next_page_token :: "market_result \<Rightarrow> pyval" where
  "next_page_token p =
     (case py_get (paging p) ''nextPageToken'' of Inl e \<Rightarrow> PyNone | Inr t \<Rightarrow> t)"

fun market_cursor :: "market_result list \<Rightarrow> nat \<Rightarrow> pyval" where
  "market_cursor ps 0 = PyStr []"
| "market_cursor ps (Suc k) = next_page_token (ps ! k)"

definition market_serves ::
  "(nat \<Rightarrow> pyval \<Rightarrow> error + market_result option) \<Rightarrow> market_result list \<Rightarrow> bool" where
  "market_serves get_product_list ps \<longleftrightarrow>
     (\<forall>k<length ps. get_product_list k (market_cursor ps k) = Inr (Some (ps ! k)))"

text \<open>A page is well formed when its entries are dictionaries (for Yandex Market: with a
  dictionary under \<^verbatim>\<open>offer\<close>, and \<^verbatim>\<open>paging\<close> a dictionary).\<close>

fun is_dict :: "pyval \<Rightarrow> bool" where
  "is_dict (PyDict d) = True"
| "is_dict _ = False"

definition ozon_well_formed :: "ozon_result \<Rightarrow> bool" where
  "ozon_well_formed p \<longleftrightarrow> (\<forall>x\<in>set (items p). is_dict x)"

definition market_well_formed :: "market_result \<Rightarrow> bool" where
  "market_well_formed p \<longleftrightarrow>
     is_dict (paging p)
     \<and> (\<forall>x\<in>set (offerMappingEntries p). \<exists>d offer. x = PyDict d
            \<and> map_of d ''offer'' = Some (PyDict offer))"

text \<open>The number of entries of the first \<open>m\<close> pages, and the signals of the last page:
  for Ozon the declared total equals the number of entries accumulated through the page,
  for Yandex Market the token of the page is false.\<close>

definition ozon_exhausted :: "ozon_result list \<Rightarrow> nat \<Rightarrow> bool" where
  "ozon_exhausted ps k \<longleftrightarrow>
     total (ps ! k) = PyInt (int (length (concat (map items (take (Suc k) ps)))))"

definition market_exhausted :: "market_result list \<Rightarrow> nat \<Rightarrow> bool" where
  "market_exhausted ps k \<longleftrightarrow> \<not> py_truthy (next_page_token (ps ! k))"

section \<open>The top-level runs\<close>

text \<open>
  A run is described by the update requests it sends, in order, each with the account it
  goes to and the chunk it carries; by the value of \<^verbatim>\<open>prices\<close> when \<^verbatim>\<open>create_prices\<close> has
  returned one; and by how it ends: it finishes, an exception ends it (the handlers of
  \<^verbatim>\<open>main\<close> print it), or the catalog loop never returns.
\<close>

datatype request = StocksRequest string "pyval list" | PriceRequest string "pyval list"

fun is_price_request :: "request \<Rightarrow> bool" where
  "is_price_request (PriceRequest account chunk) = True"
| "is_price_request (StocksRequest account chunk) = False"

datatype outcome = Finished | Raised error | Hangs

record run =
  sent :: "request list"
  prices_built :: "pyval list option"
  outcome :: outcome

text \<open>
  \<^verbatim>\<open>for chunk in list(divide(...)): update(chunk, ...)\<close>: the requests go out in order; the
  first one the transport fails (\<^verbatim>\<open>raise_for_status\<close>, a timeout, a lost connection)
  ends the loop with an exception. The transport is a parameter: it says which requests
  succeed.
\<close>

fun submit_all :: "(request \<Rightarrow> bool) \<Rightarrow> request list \<Rightarrow> request list \<times> bool" where
  "submit_all transport [] = ([], True)"
| "submit_all transport (r # rs) =
     (if transport r
      then (case submit_all transport rs of (done, ok) \<Rightarrow> (r # done, ok))
      else ([r], False))"

text \<open>The body of \<^verbatim>\<open>seller.main\<close> after \<^verbatim>\<open>get_offer_ids\<close> has returned or raised;
  \<open>download\<close> is what \<^verbatim>\<open>download_stock()\<close> returns or raises.\<close>

definition seller_run ::
  "(request \<Rightarrow> bool) \<Rightarrow> string \<Rightarrow> error + pyval list \<Rightarrow> error + watch list \<Rightarrow> run" where
  "seller_run transport client_id fetched download =
     (case fetched of
        Inl e \<Rightarrow> \<lparr>sent = [], prices_built = None, outcome = Raised e\<rparr>
      | Inr offer_ids \<Rightarrow>
     (case download of
        Inl e \<Rightarrow> \<lparr>sent = [], prices_built = None, outcome = Raised e\<rparr>
      | Inr watch_remnants \<Rightarrow>
     (case seller_create_stocks watch_remnants offer_ids of
        (Inl e, offer_ids') \<Rightarrow> \<lparr>sent = [], prices_built = None, outcome = Raised e\<rparr>
      | (Inr stocks, offer_ids') \<Rightarrow>
     (case divide_lst stocks 100 of
        Inl e \<Rightarrow> \<lparr>sent = [], prices_built = None, outcome = Raised e\<rparr>
      | Inr chunks \<Rightarrow>
     (case submit_all transport (map (StocksRequest client_id) chunks) of
        (sent1, False) \<Rightarrow> \<lparr>sent = sent1, prices_built = None, outcome = Raised HTTPError\<rparr>
      | (sent1, True) \<Rightarrow>
     (case seller_create_prices watch_remnants offer_ids' of
        (Inl e, offer_ids'') \<Rightarrow> \<lparr>sent = sent1, prices_built = None, outcome = Raised e\<rparr>
      | (Inr prices, offer_ids'') \<Rightarrow>
     (case divide_lst prices 900 of
        Inl e \<Rightarrow> \<lparr>sent = sent1, prices_built = Some prices, outcome = Raised e\<rparr>
      | Inr price_chunks \<Rightarrow>
     (case submit_all transport (map (PriceRequest client_id) price_chunks) of
        (sent2, ok) \<Rightarrow>
          \<lparr>sent = sent1 @ sent2, prices_built = Some prices,
           outcome = (if ok then Finished else Raised HTTPError)\<rparr>))))))))"

text \<open>\<^verbatim>\<open>seller.main\<close>: \<^verbatim>\<open>create_prices\<close> receives the list \<^verbatim>\<open>create_stocks\<close> has changed.\<close>

definition seller_main ::
  "(nat \<Rightarrow> pyval \<Rightarrow> error + ozon_result option) \<Rightarrow> (request \<Rightarrow> bool) \<Rightarrow> string
     \<Rightarrow> error + watch list \<Rightarrow> run" where
  "seller_main get_product_list transport client_id download =
     (case seller_get_offer_ids get_product_list of
        None \<Rightarrow> \<lparr>sent = [], prices_built = None, outcome = Hangs\<rparr>
      | Some fetched \<Rightarrow> seller_run transport client_id fetched download)"

text \<open>
  \<^verbatim>\<open>market.upload_prices\<close> is declared \<^verbatim>\<open>async def\<close>: a call evaluates the arguments and
  returns a coroutine object, whose body runs only when the coroutine is awaited. The
  body is the function \<open>market_upload_prices_body\<close>; the call wraps it unevaluated.
\<close>

datatype 'a coroutine = Coroutine "unit \<Rightarrow> 'a"

definition market_upload_prices_body ::
  "(nat \<Rightarrow> pyval \<Rightarrow> error + market_result option) \<Rightarrow> (request \<Rightarrow> bool) \<Rightarrow> watch list
     \<Rightarrow> string \<Rightarrow> run" where
  "market_upload_prices_body get_product_list transport watch_remnants campaign_id =
     (case market_get_offer_ids get_product_list of
        None \<Rightarrow> \<lparr>sent = [], prices_built = None, outcome = Hangs\<rparr>
      | Some (Inl e) \<Rightarrow> \<lparr>sent = [], prices_built = None, outcome = Raised e\<rparr>
      | Some (Inr offer_ids) \<Rightarrow>
     (case market_create_prices watch_remnants offer_ids of
        (Inl e, offer_ids') \<Rightarrow> \<lparr>sent = [], prices_built = None, outcome = Raised e\<rparr>
      | (Inr prices, offer_ids') \<Rightarrow>
     (case divide_lst prices 500 of
        Inl e \<Rightarrow> \<lparr>sent = [], prices_built = Some prices, outcome = Raised e\<rparr>
      | Inr price_chunks \<Rightarrow>
     (case submit_all transport (map (PriceRequest campaign_id) price_chunks) of
        (sent2, ok) \<Rightarrow>
          \<lparr>sent = sent2, prices_built = Some prices,
           outcome = (if ok then Finished else Raised HTTPError)\<rparr>))))"

definition market_upload_prices ::
  "(nat \<Rightarrow> pyval \<Rightarrow> error + market_result option) \<Rightarrow> (request \<Rightarrow> bool) \<Rightarrow> watch list
     \<Rightarrow> string \<Rightarrow> run coroutine" where
  "market_upload_prices get_product_list transport watch_remnants campaign_id =
     Coroutine (\<lambda>_. market_upload_prices_body get_product_list transport watch_remnants
                       campaign_id)"

text \<open>
  One half of the \<^verbatim>\<open>try\<close> block of \<^verbatim>\<open>market.main\<close>, for one campaign: the catalog, the
  stock batch, its chunks of 2000, and the call of \<^verbatim>\<open>upload_prices\<close>, whose coroutine is
  dropped.
\<close>

definition market_campaign ::
  "(nat \<Rightarrow> pyval \<Rightarrow> error + market_result option) \<Rightarrow> (request \<Rightarrow> bool) \<Rightarrow> datetime
     \<Rightarrow> watch list \<Rightarrow> string \<Rightarrow> string \<Rightarrow> run" where
  "market_campaign get_product_list transport now watch_remnants campaign_id warehouse_id =
     (case market_get_offer_ids get_product_list of
        None \<Rightarrow> \<lparr>sent = [], prices_built = None, outcome = Hangs\<rparr>
      | Some (Inl e) \<Rightarrow> \<lparr>sent = [], prices_built = None, outcome = Raised e\<rparr>
      | Some (Inr offer_ids) \<Rightarrow>
     (case market_create_stocks now watch_remnants offer_ids warehouse_id of
        (Inl e, offer_ids') \<Rightarrow> \<lparr>sent = [], prices_built = None, outcome = Raised e\<rparr>
      | (Inr stocks, offer_ids') \<Rightarrow>
     (case divide_lst stocks 2000 of
        Inl e \<Rightarrow> \<lparr>sent = [], prices_built = None, outcome = Raised e\<rparr>
      | Inr chunks \<Rightarrow>
     (case submit_all transport (map (StocksRequest campaign_id) chunks) of
        (sent1, False) \<Rightarrow> \<lparr>sent = sent1, prices_built = None, outcome = Raised HTTPError\<rparr>
      | (sent1, True) \<Rightarrow>
          (case market_upload_prices get_product_list transport watch_remnants campaign_id of
             Coroutine body \<Rightarrow>
               \<lparr>sent = sent1, prices_built = None, outcome = Finished\<rparr>)))))"

text \<open>
  \<^verbatim>\<open>market.main\<close>: \<^verbatim>\<open>download_stock()\<close> stands before the \<^verbatim>\<open>try\<close>; then the FBS campaign and,
  when nothing was raised, the DBS campaign. Each campaign has its own catalog requests
  and its own reading of the clock.
\<close>

definition market_main ::
  "(string \<Rightarrow> nat \<Rightarrow> pyval \<Rightarrow> error + market_result option) \<Rightarrow> (request \<Rightarrow> bool)
     \<Rightarrow> (string \<Rightarrow> datetime) \<Rightarrow> error + watch list
     \<Rightarrow> string \<Rightarrow> string \<Rightarrow> string \<Rightarrow> string \<Rightarrow> run" where
  "market_main get_product_list transport clock download
       campaign_fbs_id campaign_dbs_id warehouse_fbs_id warehouse_dbs_id =
     (case download of
        Inl e \<Rightarrow> \<lparr>sent = [], prices_built = None, outcome = Raised e\<rparr>
      | Inr watch_remnants \<Rightarrow>
          (let fbs = market_campaign (get_product_list campaign_fbs_id) transport
                       (clock campaign_fbs_id) watch_remnants campaign_fbs_id warehouse_fbs_id
           in if outcome fbs \<noteq> Finished then fbs
              else
                (let dbs = market_campaign (get_product_list campaign_dbs_id) transport
                             (clock campaign_dbs_id) watch_remnants campaign_dbs_id
                             warehouse_dbs_id
                 in \<lparr>sent = sent fbs @ sent dbs, prices_built = None,
                     outcome = outcome dbs\<rparr>)))"

text \<open>Examples: an Ozon page that lists the offer \<^verbatim>\<open>73309\<close> twice; the offers \<^verbatim>\<open>136748\<close>
  and \<^verbatim>\<open>73309\<close> in two Ozon pages and in one Yandex Market page; and servers that answer
  with these pages, request by request.\<close>

definition ozon_page_twice :: ozon_result where
  "ozon_page_twice =
     \<lparr>items = [PyDict [(''product_id'', PyInt 223681945), (''offer_id'', PyStr ''73309'')],
               PyDict [(''product_id'', PyInt 223681946), (''offer_id'', PyStr ''73309'')]],
      total = PyInt 2, last_id = PyStr ''bnVsbA==''\<rparr>"

definition ozon_pages_example :: "ozon_result list" where
  "ozon_pages_example =
     [\<lparr>items = [PyDict [(''product_id'', PyInt 223681945), (''offer_id'', PyStr ''136748'')]],
       total = PyInt 2, last_id = PyStr ''bnVsbA==''\<rparr>,
      \<lparr>items = [PyDict [(''product_id'', PyInt 223681946), (''offer_id'', PyStr ''73309'')]],
       total = PyInt 2, last_id = PyStr []\<rparr>]"

definition market_page_example :: market_result where
  "market_page_example =
     \<lparr>offerMappingEntries =
        [PyDict [(''offer'', PyDict [(''shopSku'', PyStr ''136748'')])],
         PyDict [(''offer'', PyDict [(''shopSku'', PyStr ''73309'')])]],
      paging = PyDict []\<rparr>"

definition ozon_server_twice :: "nat \<Rightarrow> pyval \<Rightarrow> error + ozon_result option" where
  "ozon_server_twice k cursor = (if k = 0 then Inr (Some ozon_page_twice) else Inl HTTPError)"

definition ozon_server_example :: "nat \<Rightarrow> pyval \<Rightarrow> error + ozon_result option" where
  "ozon_server_example k cursor =
     (if k < 2 then Inr (Some (ozon_pages_example ! k)) else Inl HTTPError)"

definition market_server_example ::
  "string \<Rightarrow> nat \<Rightarrow> pyval \<Rightarrow> error + market_result option" where
  "market_server_example campaign_id k cursor =
     (if k = 0 then Inr (Some market_page_example) else Inl HTTPError)"

text \<open>The stock batch of Yandex Market for the row of the docstrings, the listed offers
  \<^verbatim>\<open>136748\<close> and \<^verbatim>\<open>73309\<close>, a warehouse and the clock of the example.\<close>

definition market_stocks_example :: "string \<Rightarrow> pyval list" where
  "market_stocks_example warehouse_id =
     [PyDict [(''sku'', PyStr ''73309''), (''warehouseId'', PyStr warehouse_id),
              (''items'', PyList [PyDict [(''count'', PyInt 2),
                                          (''type'', PyStr ''FIT''),
                                          (''updatedAt'', PyStr ''2022-12-29T18:02:01Z'')]])],
      PyDict [(''sku'', PyStr ''136748''), (''warehouseId'', PyStr warehouse_id),
              (''items'', PyList [PyDict [(''count'', PyInt 0),
                                          (''type'', PyStr ''FIT''),
                                          (''updatedAt'', PyStr ''2022-12-29T18:02:01Z'')]])]]"

text \<open>The row of the feed in the docstrings of \<^verbatim>\<open>create_stocks\<close>: code \<open>73309\<close>,
  price \<^verbatim>\<open>38'440.00\<close> with the currency, quantity \<open>2\<close>.\<close>

definition watch_example :: watch where
  "watch_example =
     [(key_code, CInt 73309),
      (key_price, CStr ([CHR ''3'', CHR ''8'', CHR 0x27, CHR ''4'', CHR ''4'', CHR ''0'',
                         CHR ''.'', CHR ''0'', CHR ''0'', CHR 0x20, CHR 0xD1, CHR 0x80,
                         CHR 0xD1, CHR 0x83, CHR 0xD0, CHR 0xB1, CHR ''.''])),
      (key_count, CInt 2)]"

text \<open>A reading of the clock, the one in the docstring of \<^verbatim>\<open>update_stocks\<close>, with
  microseconds.\<close>

definition clock_example :: datetime where
  "clock_example =
     \<lparr>year = 2022, month = 12, day = 29, hour = 18, minute = 2, second = 1,
      microsecond = 123456\<rparr>"

text \<open>The base-10 value of a text of digits, and a field of a date: a text of a fixed
  number of digits with a given value.\<close>

definition decimal_value :: "string \<Rightarrow> nat" where
  "decimal_value s = foldl (\<lambda>a c. 10 * a + digit_val c) 0 s"

definition decimal_field :: "nat \<Rightarrow> nat \<Rightarrow> string \<Rightarrow> bool" where
  "decimal_field width n t \<longleftrightarrow>
     length t = width \<and> (\<forall>c\<in>set t. is_digit c) \<and> decimal_value t = n"

text \<open>The values a \<^verbatim>\<open>datetime\<close> of Python can hold.\<close>

definition valid_datetime :: "datetime \<Rightarrow> bool" where
  "valid_datetime dt \<longleftrightarrow>
     1 \<le> year dt \<and> year dt \<le> 9999 \<and> 1 \<le> month dt \<and> month dt \<le> 12
     \<and> 1 \<le> day dt \<and> day dt \<le> 31 \<and> hour dt \<le> 23 \<and> minute dt \<le> 59
     \<and> second dt \<le> 59 \<and> microsecond dt \<le> 999999"

section \<open>Properties of the batcher\<close>

lemma divide_from_concat: "0 < n \<Longrightarrow> concat (divide_from lst n i) = drop i lst"
proof (induction lst n i rule: divide_from.induct)
  case (1 lst n i)
  show ?case
  proof (cases "i < length lst")
    case True
    have "concat (divide_from lst n i) = take n (drop i lst) @ drop (i + n) lst"
      using 1 True by (subst divide_from.simps) simp
    also have "\<dots> = take n (drop i lst) @ drop n (drop i lst)"
      by (simp only: drop_drop add.commute)
    also have "\<dots> = drop i lst"
      by (rule append_take_drop_id)
    finally show ?thesis .
  next
    case False
    then show ?thesis by (subst divide_from.simps) simp
  qed
qed

lemma divide_from_empty: "length lst \<le> i \<Longrightarrow> divide_from lst n i = []"
  by (subst divide_from.simps) simp

lemma divide_from_step:
  "0 < n \<Longrightarrow> i < length lst \<Longrightarrow>
     divide_from lst n i = take n (drop i lst) # divide_from lst n (i + n)"
  by (subst divide_from.simps) simp

lemma divide_from_chunk_bounds:
  "0 < n \<Longrightarrow> c \<in> set (divide_from lst n i) \<Longrightarrow> 1 \<le> length c \<and> length c \<le> n"
proof (induction lst n i rule: divide_from.induct)
  case (1 lst n i)
  show ?case
  proof (cases "i < length lst")
    case True
    with 1 show ?thesis
      by (auto simp: divide_from_step)
  next
    case False
    with 1 show ?thesis by (simp add: divide_from_empty)
  qed
qed

lemma divide_from_full:
  "0 < n \<Longrightarrow> Suc k < length (divide_from lst n i) \<Longrightarrow> length (divide_from lst n i ! k) = n"
proof (induction lst n i arbitrary: k rule: divide_from.induct)
  case (1 lst n i)
  show ?case
  proof (cases "i < length lst")
    case True
    note step = divide_from_step [OF \<open>0 < n\<close> True]
    show ?thesis
    proof (cases k)
      case 0
      with 1(3) step have "divide_from lst n (i + n) \<noteq> []" by auto
      then have "i + n < length lst"
        using divide_from_empty [of lst "i + n" n] by (cases "i + n < length lst") auto
      then show ?thesis using 0 step by simp
    next
      case (Suc j)
      with 1(3) step have "Suc j < length (divide_from lst n (i + n))" by simp
      with 1(1) [of j] True \<open>0 < n\<close> have "length (divide_from lst n (i + n) ! j) = n" by simp
      then show ?thesis using Suc step by simp
    qed
  next
    case False
    with 1(3) show ?thesis by (simp add: divide_from_empty)
  qed
qed

text \<open>
  C7. For every list and every positive \<open>n\<close>, \<^verbatim>\<open>divide\<close> returns chunks whose concatenation
  is the list in its order; every chunk but the last has exactly \<open>n\<close> elements; the last
  chunk of a non-empty list has between \<open>1\<close> and \<open>n\<close> elements; the empty list gives no
  chunk.
\<close>

theorem divide_chunks:
  assumes "0 < n"
  shows "\<exists>chunks. divide_lst lst n = Inr chunks
           \<and> concat chunks = lst
           \<and> (\<forall>k. Suc k < length chunks \<longrightarrow> int (length (chunks ! k)) = n)
           \<and> (lst \<noteq> [] \<longrightarrow>
                 chunks \<noteq> [] \<and> 1 \<le> length (last chunks) \<and> int (length (last chunks)) \<le> n)
           \<and> (lst = [] \<longrightarrow> chunks = [])"
proof -
  let ?cs = "divide_from lst (nat n) 0"
  have pos: "0 < nat n" using assms by simp
  have d: "divide_lst lst n = Inr ?cs" using assms by (simp add: divide_lst_def)
  have c: "concat ?cs = lst" using divide_from_concat [OF pos, of lst 0] by simp
  have f: "\<forall>k. Suc k < length ?cs \<longrightarrow> int (length (?cs ! k)) = n"
  proof (intro allI impI)
    fix k assume "Suc k < length ?cs"
    then have "length (?cs ! k) = nat n" by (rule divide_from_full [OF pos])
    then show "int (length (?cs ! k)) = n" using assms by simp
  qed
  have l: "lst \<noteq> [] \<longrightarrow> ?cs \<noteq> [] \<and> 1 \<le> length (last ?cs) \<and> int (length (last ?cs)) \<le> n"
  proof
    assume ne: "lst \<noteq> []"
    then have "?cs \<noteq> []" using divide_from_step [OF pos, of 0 lst] by simp
    moreover from this have "last ?cs \<in> set ?cs" by simp
    then have "1 \<le> length (last ?cs) \<and> length (last ?cs) \<le> nat n"
      by (rule divide_from_chunk_bounds [OF pos])
    ultimately show "?cs \<noteq> [] \<and> 1 \<le> length (last ?cs) \<and> int (length (last ?cs)) \<le> n"
      using assms by auto
  qed
  have e: "lst = [] \<longrightarrow> ?cs = []" by (simp add: divide_from_empty)
  from d c f l e show ?thesis by blast
qed

theorem divide_chunks_witness:
  "divide_lst [1, 2, 3, 4, 5 :: int] 2 = Inr [[1, 2], [3, 4], [5]]"
proof -
  have "(0::int) < 2" by simp
  from divide_chunks [OF this, of "[1, 2, 3, 4, 5 :: int]"]
  obtain chunks where "divide_lst [1, 2, 3, 4, 5 :: int] 2 = Inr chunks" by blast
  moreover have "divide_from [1, 2, 3, 4, 5 :: int] 2 0 = [[1, 2], [3, 4], [5]]"
    by (simp add: divide_from.simps)
  ultimately show ?thesis by (simp add: divide_lst_def)
qed

section \<open>Properties of the price normalizer\<close>

lemma split_on_first: "\<exists>segs. split_on sep s = takeWhile (\<lambda>c. c \<noteq> sep) s # segs"
  by (induction s) auto

text \<open>
  C6. For every text, \<^verbatim>\<open>price_conversion\<close> returns the part of the text before its first
  dot with every character outside \<^verbatim>\<open>0-9\<close> removed; for a text \<open>d1 . rest\<close> whose \<open>d1\<close>
  has no dot, that is \<open>d1\<close> without its non-digits, whatever dots \<open>rest\<close> has.
\<close>

theorem price_conversion_digits:
  "price_conversion (CStr s)
     = Inr (filter (\<lambda>c. c \<in> set ''0123456789'') (takeWhile (\<lambda>c. c \<noteq> CHR ''.'') s))
   \<and> (CHR ''.'' \<notin> set d1 \<longrightarrow>
        price_conversion (CStr (d1 @ CHR ''.'' # rest))
          = Inr (filter (\<lambda>c. c \<in> set ''0123456789'') d1))"
proof -
  have a: "price_conversion (CStr t)
     = Inr (filter (\<lambda>c. c \<in> set ''0123456789'') (takeWhile (\<lambda>c. c \<noteq> CHR ''.'') t))" for t
  proof -
    obtain segs where "split_on (CHR ''.'') t = takeWhile (\<lambda>c. c \<noteq> CHR ''.'') t # segs"
      using split_on_first by blast
    then show ?thesis
      by (simp add: re_sub_non_digits_def is_digit_def [abs_def])
  qed
  have b: "CHR ''.'' \<notin> set d1 \<Longrightarrow>
     takeWhile (\<lambda>c. c \<noteq> CHR ''.'') (d1 @ CHR ''.'' # rest) = d1"
    by (induction d1) auto
  show ?thesis using a [of s] a [of "d1 @ CHR ''.'' # rest"] b by simp
qed

theorem price_conversion_digits_witness:
  "CHR ''.'' \<notin> set [CHR ''5'', CHR 0x27, CHR ''9'', CHR ''9'', CHR ''0'']
   \<and> price_conversion (CStr price_example) = Inr ''5990''"
proof -
  have h: "CHR ''.'' \<notin> set [CHR ''5'', CHR 0x27, CHR ''9'', CHR ''9'', CHR ''0'']" by simp
  have "price_conversion (CStr price_example) = Inr ''5990''"
    using h price_conversion_digits [of price_example
        "[CHR ''5'', CHR 0x27, CHR ''9'', CHR ''9'', CHR ''0'']"
        "[CHR ''0'', CHR ''0'', CHR 0x20, CHR 0xD1, CHR 0x80, CHR 0xD1, CHR 0x83, CHR 0xD0,
          CHR 0xB1, CHR ''.'']"]
    by (simp add: price_example_def)
  with h show ?thesis by simp
qed

section \<open>Properties of the quantity normalizer\<close>

lemma digit_not_space: "is_digit c \<Longrightarrow> \<not> is_space c"
  by (auto simp: is_digit_def is_space_def)

lemma digit_not_sign: "is_digit c \<Longrightarrow> c \<noteq> CHR ''+'' \<and> c \<noteq> CHR ''-'' \<and> c \<noteq> CHR ''_''"
  by (auto simp: is_digit_def)

lemma digit_ascii: "is_digit c \<Longrightarrow> (of_char c :: nat) < 0x80"
  by (auto simp: is_digit_def)

lemma scan_digits_all:
  "\<forall>c\<in>set s. is_digit c \<Longrightarrow> s \<noteq> [] \<or> pd \<Longrightarrow>
     scan_digits pd acc n s
       = Some (foldl (\<lambda>a c. 10 * a + digit_val c) acc s, n + length s, [])"
  by (induction s arbitrary: acc pd n) auto

lemma scan_digits_rest:
  "scan_digits pd acc n s = Some (v, k, rest) \<Longrightarrow> c \<in> set s \<Longrightarrow> \<not> is_digit c
     \<Longrightarrow> c \<noteq> CHR ''_'' \<Longrightarrow> c \<in> set rest"
  by (induction s arbitrary: acc pd n) (auto split: if_splits)

lemma dropWhile_keeps: "c \<in> set s \<Longrightarrow> \<not> P c \<Longrightarrow> c \<in> set (dropWhile P s)"
  by (induction s) auto

lemma strip_sign_keeps:
  "c \<in> set s \<Longrightarrow> c \<noteq> CHR ''+'' \<Longrightarrow> c \<noteq> CHR ''-'' \<Longrightarrow> c \<in> set (snd (strip_sign s))"
  by (cases s) auto

lemma long_from_string_digits:
  assumes "s \<noteq> []" "\<forall>c\<in>set s. is_digit c"
  shows "long_from_string s
     = (if length s \<le> int_max_str_digits then Inr (int (decimal_value s)) else Inl ValueError)"
proof -
  obtain c cs where s: "s = c # cs" using assms(1) by (cases s) auto
  then have c: "is_digit c" using assms(2) by simp
  have "dropWhile is_space s = s" using s c digit_not_space by simp
  moreover have "strip_sign s = (False, s)" using s digit_not_sign [OF c] by simp
  ultimately show ?thesis
    using scan_digits_all [OF assms(2), of False 0 0] assms(1)
    by (simp add: long_from_string_def decimal_value_def)
qed

lemma int_of_str_digits:
  assumes "s \<noteq> []" "\<forall>c\<in>set s. is_digit c"
  shows "int_of_str s
     = (if length s \<le> int_max_str_digits then Inr (int (decimal_value s)) else Inl ValueError)"
proof -
  have "list_all (\<lambda>c. (of_char c :: nat) < 0x80) s"
    using assms(2) digit_ascii by (simp add: list_all_iff)
  then show ?thesis using long_from_string_digits [OF assms] by (simp add: int_of_str_def)
qed

lemma long_from_string_foreign:
  assumes "c \<in> set s" "\<not> is_digit c" "\<not> is_space c"
    "c \<noteq> CHR ''+''" "c \<noteq> CHR ''-''" "c \<noteq> CHR ''_''"
  shows "long_from_string s = Inl ValueError"
proof -
  obtain neg body where sb: "strip_sign (dropWhile is_space s) = (neg, body)"
    by (cases "strip_sign (dropWhile is_space s)")
  have "c \<in> set (dropWhile is_space s)" using assms(1,3) by (rule dropWhile_keeps)
  then have cb: "c \<in> set body" using strip_sign_keeps [OF _ assms(4,5)] sb by fastforce
  show ?thesis
  proof (cases "scan_digits False 0 0 body")
    case None
    then show ?thesis using sb by (simp add: long_from_string_def)
  next
    case (Some r)
    obtain v k rest where r: "r = (v, k, rest)" by (cases r)
    have "c \<in> set rest" using scan_digits_rest [OF _ cb assms(2,6)] Some r by simp
    then have "\<not> (\<forall>x\<in>set rest. is_space x)" using assms(3) by blast
    then show ?thesis using sb Some r by (auto simp: long_from_string_def)
  qed
qed

lemma utf8_decode_keeps:
  "utf8_decode s = Some cps \<Longrightarrow> c \<in> set s \<Longrightarrow> (of_char c :: nat) < 0x80
     \<Longrightarrow> Ascii c \<in> set cps"
proof (induction s arbitrary: cps rule: utf8_decode.induct)
  case 1
  then show ?case by simp
next
  case (2 b bs)
  have nc: "\<not> is_continuation c" using "2.prems"(3) by (simp add: is_continuation_def)
  show ?case
  proof (cases "(of_char b :: nat) < 0x80")
    case True
    with "2.prems" obtain r where r: "utf8_decode bs = Some r" "cps = Ascii b # r" by auto
    show ?thesis
    proof (cases "c = b")
      case True
      with r show ?thesis by simp
    next
      case False
      with "2.prems"(2) have "c \<in> set bs" by simp
      from "2.IH"(1) [OF True r(1) this "2.prems"(3)] r show ?thesis by simp
    qed
  next
    case b: False
    then have cb: "c \<noteq> b" using "2.prems"(3) by auto
    with "2.prems"(2) have cbs: "c \<in> set bs" by simp
    show ?thesis
    proof (cases "0xC0 \<le> (of_char b :: nat) \<and> (of_char b :: nat) < 0xE0")
      case True
      with b "2.prems"(1) obtain c1 rest r where
        x: "bs = c1 # rest" "is_continuation c1" "utf8_decode rest = Some r"
           "cps = Beyond ((of_char b - 0xC0) * 0x40 + continuation c1) # r"
        by (auto split: list.splits if_splits)
      have "c \<in> set rest" using cbs x(1,2) nc by auto
      from "2.IH"(2) [OF b True x(1) x(2) x(3) this "2.prems"(3)] x(4)
      show ?thesis by simp
    next
      case two: False
      show ?thesis
      proof (cases "0xE0 \<le> (of_char b :: nat) \<and> (of_char b :: nat) < 0xF0")
        case True
        with b two "2.prems"(1) obtain c1 c2 rest r where
          x: "bs = c1 # c2 # rest" "is_continuation c1 \<and> is_continuation c2"
             "utf8_decode rest = Some r"
             "cps = Beyond ((of_char b - 0xE0) * 0x1000 + continuation c1 * 0x40
                            + continuation c2) # r"
          by (auto split: list.splits if_splits)
        have "c \<in> set rest" using cbs x(1,2) nc by auto
        from "2.IH"(3) [OF b two True x(1) _ x(2) x(3) this "2.prems"(3)] x(4)
        show ?thesis by simp
      next
        case three: False
        show ?thesis
        proof (cases "0xF0 \<le> (of_char b :: nat) \<and> (of_char b :: nat) < 0xF8")
          case True
          with b two three "2.prems"(1) obtain c1 c2 c3 rest r where
            x: "bs = c1 # c2 # c3 # rest"
               "is_continuation c1 \<and> is_continuation c2 \<and> is_continuation c3"
               "utf8_decode rest = Some r"
               "cps = Beyond ((of_char b - 0xF0) * 0x40000 + continuation c1 * 0x1000
                              + continuation c2 * 0x40 + continuation c3) # r"
            by (auto split: list.splits if_splits)
          have "c \<in> set rest" using cbs x(1,2) nc by auto
          from "2.IH"(4) [OF b two three True x(1) _ _ x(2) x(3) this "2.prems"(3)] x(4)
          show ?thesis by simp
        next
          case False
          with b two three "2.prems"(1) show ?thesis by (auto split: if_splits)
        qed
      qed
    qed
  qed
qed

lemma question_mark_foreign:
  "\<not> is_digit (CHR ''?'') \<and> \<not> is_space (CHR ''?'')"
  by (simp add: is_digit_def is_space_def)

lemma transform_keeps:
  "Ascii c \<in> set cps \<Longrightarrow>
     c \<in> set (decimal_and_space_to_ascii cps)
     \<or> CHR ''?'' \<in> set (decimal_and_space_to_ascii cps)"
  by (induction cps rule: decimal_and_space_to_ascii.induct) (auto split: option.splits)

lemma int_of_str_foreign:
  assumes "c \<in> set s" "(of_char c :: nat) < 0x80" "\<not> is_digit c" "\<not> is_space c"
    "c \<noteq> CHR ''+''" "c \<noteq> CHR ''-''" "c \<noteq> CHR ''_''"
  shows "int_of_str s = Inl ValueError"
proof (cases "list_all (\<lambda>c. (of_char c :: nat) < 0x80) s")
  case True
  then show ?thesis
    using long_from_string_foreign [OF assms(1,3-7)] by (simp add: int_of_str_def)
next
  case False
  show ?thesis
  proof (cases "utf8_decode s")
    case None
    with False show ?thesis by (simp add: int_of_str_def)
  next
    case (Some cps)
    have "Ascii c \<in> set cps" by (rule utf8_decode_keeps [OF Some assms(1,2)])
    then have "c \<in> set (decimal_and_space_to_ascii cps)
        \<or> CHR ''?'' \<in> set (decimal_and_space_to_ascii cps)"
      by (rule transform_keeps)
    then have "long_from_string (decimal_and_space_to_ascii cps) = Inl ValueError"
    proof
      assume "c \<in> set (decimal_and_space_to_ascii cps)"
      then show ?thesis by (rule long_from_string_foreign) (use assms in simp_all)
    next
      assume "CHR ''?'' \<in> set (decimal_and_space_to_ascii cps)"
      then show ?thesis
        by (rule long_from_string_foreign) (simp_all add: is_digit_def is_space_def)
    qed
    with False Some show ?thesis by (simp add: int_of_str_def)
  qed
qed

lemma int_of_str_arabic_seven: "int_of_str [CHR 0xD9, CHR 0xA7] = Inr 7"
  by (simp add: int_of_str_def is_continuation_def continuation_def unicode_spaces_def
      unicode_decimal_def unicode_zeros_def long_from_string_def is_space_def is_digit_def
      digit_val_def int_max_str_digits_def)

lemma int_of_str_no_break_space:
  "int_of_str [CHR 0xC2, CHR 0xA0, CHR ''1'', CHR ''2''] = Inr 12"
  by (simp add: int_of_str_def is_continuation_def continuation_def unicode_spaces_def
      unicode_decimal_def unicode_zeros_def long_from_string_def is_space_def is_digit_def
      digit_val_def int_max_str_digits_def)

lemma int_of_str_digit_limit:
  "int_of_str (replicate 4301 (CHR ''1'')) = Inl ValueError
   \<and> int_of_str (replicate 4300 (CHR ''1''))
       = Inr (int (decimal_value (replicate 4300 (CHR ''1''))))"
proof -
  have d: "\<forall>c\<in>set (replicate n (CHR ''1'')). is_digit c" for n
    by (simp add: is_digit_def)
  have "replicate 4301 (CHR ''1'') \<noteq> []" "replicate 4300 (CHR ''1'') \<noteq> []" by simp_all
  from int_of_str_digits [OF this(1) d] int_of_str_digits [OF this(2) d]
  show ?thesis by (simp add: int_max_str_digits_def)
qed

lemma normalize_quantity_cases:
  "normalize_quantity (CStr ''1'') = Inr 0
   \<and> normalize_quantity (CStr ''>10'') = Inr 100
   \<and> (d \<noteq> [] \<and> d \<noteq> ''1'' \<and> (\<forall>c\<in>set d. is_digit c) \<longrightarrow>
        normalize_quantity (CStr d)
          = (if length d \<le> int_max_str_digits then Inr (int (decimal_value d))
             else Inl ValueError))
   \<and> (s \<noteq> ''>10'' \<and> s \<noteq> ''1''
        \<and> (\<exists>c\<in>set s. (of_char c :: nat) < 0x80 \<and> \<not> is_digit c \<and> \<not> is_space c
               \<and> c \<noteq> CHR ''+'' \<and> c \<noteq> CHR ''-'' \<and> c \<noteq> CHR ''_'') \<longrightarrow>
        normalize_quantity (CStr s) = Inl ValueError)"
proof -
  have other: "t \<noteq> ''>10'' \<Longrightarrow> t \<noteq> ''1'' \<Longrightarrow> normalize_quantity (CStr t) = int_of_str t" for t
    by (simp add: normalize_quantity_def)
  have p1: "normalize_quantity (CStr ''1'') = Inr 0"
    by (simp add: normalize_quantity_def)
  have p2: "normalize_quantity (CStr ''>10'') = Inr 100"
    by (simp add: normalize_quantity_def)
  have p3: "normalize_quantity (CStr d)
      = (if length d \<le> int_max_str_digits then Inr (int (decimal_value d))
         else Inl ValueError)"
    if h: "d \<noteq> [] \<and> d \<noteq> ''1'' \<and> (\<forall>c\<in>set d. is_digit c)"
  proof -
    have "d \<noteq> ''>10''"
    proof
      assume "d = ''>10''"
      then have "CHR ''>'' \<in> set d" by simp
      with h have "is_digit (CHR ''>'')" by blast
      then show False by (simp add: is_digit_def)
    qed
    moreover have "d \<noteq> ''1''" using h by blast
    ultimately have "normalize_quantity (CStr d) = int_of_str d" by (rule other)
    moreover have "int_of_str d
        = (if length d \<le> int_max_str_digits then Inr (int (decimal_value d))
           else Inl ValueError)"
      using h by (intro int_of_str_digits) blast+
    ultimately show ?thesis by simp
  qed
  have p4: "normalize_quantity (CStr s) = Inl ValueError"
    if h: "s \<noteq> ''>10'' \<and> s \<noteq> ''1''
        \<and> (\<exists>c\<in>set s. (of_char c :: nat) < 0x80 \<and> \<not> is_digit c \<and> \<not> is_space c
               \<and> c \<noteq> CHR ''+'' \<and> c \<noteq> CHR ''-'' \<and> c \<noteq> CHR ''_'')"
  proof -
    from h obtain c where "c \<in> set s" "(of_char c :: nat) < 0x80" "\<not> is_digit c"
      "\<not> is_space c" "c \<noteq> CHR ''+''" "c \<noteq> CHR ''-''" "c \<noteq> CHR ''_''" by blast
    then have "int_of_str s = Inl ValueError" by (rule int_of_str_foreign)
    moreover have "normalize_quantity (CStr s) = int_of_str s"
      using h by (intro other) blast+
    ultimately show ?thesis by simp
  qed
  from p1 p2 p3 p4 show ?thesis by blast
qed

text \<open>
  C4. The first two cases are as stated, and the docstring's example \<^verbatim>\<open>2O\<close> raises
  \<^verbatim>\<open>ValueError\<close>. But the code does not reject every text that holds a character other
  than a digit: \<^verbatim>\<open>int\<close> reads a sign, white space around the digits and an underscore
  between digits. The quantity \<^verbatim>\<open>-5\<close> is normalized to \<open>-5\<close>, and \<^verbatim>\<open>create_stocks\<close> builds a
  stock update with the count \<open>-5\<close> where the docstring of \<^verbatim>\<open>create_stocks\<close> promises a
  \<^verbatim>\<open>ValueError\<close>.
\<close>

theorem normalize_quantity_accepts_sign:
  "normalize_quantity (CStr ''-5'') = Inr (- 5)
   \<and> seller_create_stocks [[(key_code, CInt 73309), (key_count, CStr ''-5'')]]
        [PyStr ''73309'']
       = (Inr [PyDict [(''offer_id'', PyStr ''73309''), (''stock'', PyInt (- 5))]], [])
   \<and> normalize_quantity (CStr '' 7'') = Inr 7
   \<and> normalize_quantity (CStr ''1_0'') = Inr 10
   \<and> normalize_quantity (CStr ''2O'') = Inl ValueError"
proof -
  have a: "normalize_quantity (CStr ''-5'') = Inr (- 5)"
    by (simp add: normalize_quantity_def int_of_str_def long_from_string_def is_space_def
        is_digit_def digit_val_def int_max_str_digits_def)
  have k: "watch_code [(key_code, CInt 73309), (key_count, CStr ''-5'')] = PyStr ''73309''"
    by (simp add: watch_code_def watch_get_def key_code_def str_int_def str_nat.simps)
  have q: "watch_get [(key_code, CInt 73309), (key_count, CStr ''-5'')] key_count
      = CStr ''-5''"
    by (simp add: watch_get_def key_code_def key_count_def)
  have b: "seller_create_stocks [[(key_code, CInt 73309), (key_count, CStr ''-5'')]]
        [PyStr ''73309'']
       = (Inr [PyDict [(''offer_id'', PyStr ''73309''), (''stock'', PyInt (- 5))]], [])"
    by (simp add: seller_create_stocks_def k q a)
  have c: "normalize_quantity (CStr '' 7'') = Inr 7"
    "normalize_quantity (CStr ''1_0'') = Inr 10"
    "normalize_quantity (CStr ''2O'') = Inl ValueError"
    by (simp_all add: normalize_quantity_def int_of_str_def long_from_string_def is_space_def
        is_digit_def digit_val_def int_max_str_digits_def)
  from a b c show ?thesis by simp
qed

section \<open>Properties of \<^verbatim>\<open>create_stocks\<close>\<close>

lemma seller_stocks_loop_acc:
  "seller_stocks_loop F ids acc =
     (case seller_stocks_loop F ids [] of
        (Inl e, i) \<Rightarrow> (Inl e, i)
      | (Inr new, i) \<Rightarrow> (Inr (acc @ new), i))"
proof (induction F arbitrary: ids acc)
  case Nil
  show ?case by simp
next
  case (Cons w F)
  show ?case
  proof (cases "watch_code w \<in> set ids")
    case False
    then show ?thesis using Cons.IH [of ids acc] by simp
  next
    case True
    show ?thesis
    proof (cases "normalize_quantity (watch_get w key_count)")
      case (Inl e)
      with True show ?thesis by simp
    next
      case (Inr n)
      let ?e = "PyDict [(''offer_id'', watch_code w), (''stock'', PyInt n)]"
      let ?ids = "remove1 (watch_code w) ids"
      have a: "seller_stocks_loop (w # F) ids acc = seller_stocks_loop F ?ids (acc @ [?e])"
        using True Inr by simp
      have b: "seller_stocks_loop (w # F) ids [] = seller_stocks_loop F ?ids [?e]"
        using True Inr by simp
      show ?thesis
        unfolding a b
        by (subst Cons.IH [of ?ids "acc @ [?e]"], subst Cons.IH [of ?ids "[?e]"])
           (simp split: prod.splits sum.splits)
    qed
  qed
qed

lemma seller_stocks_loop_step:
  assumes "watch_code w \<in> set ids" "normalize_quantity (watch_get w key_count) = Inr n"
  shows "seller_stocks_loop (w # F) ids [] =
     (case seller_stocks_loop F (remove1 (watch_code w) ids) [] of
        (Inl e, i) \<Rightarrow> (Inl e, i)
      | (Inr new, i) \<Rightarrow>
          (Inr (PyDict [(''offer_id'', watch_code w), (''stock'', PyInt n)] # new), i))"
proof -
  have "seller_stocks_loop (w # F) ids [] =
      seller_stocks_loop F (remove1 (watch_code w) ids)
        [PyDict [(''offer_id'', watch_code w), (''stock'', PyInt n)]]"
    using assms by simp
  then show ?thesis
    by (subst (asm) seller_stocks_loop_acc) (simp split: prod.splits sum.splits)
qed

lemma mset_map_remove1:
  "x \<in> set xs \<Longrightarrow> add_mset (f x) (mset (map f (remove1 x xs))) = mset (map f xs)"
  by (induction xs) auto

lemma distinct_remove1_filter:
  assumes "distinct xs"
  shows "remove1 x xs = filter (\<lambda>y. y \<noteq> x) xs"
proof -
  have "remove1 x xs = filter (\<lambda>y. x \<noteq> y) xs"
    using assms by (simp add: distinct_remove1_removeAll removeAll_filter_not_eq)
  also have "\<dots> = filter (\<lambda>y. y \<noteq> x) xs"
    by (rule filter_cong) auto
  finally show ?thesis .
qed

lemma seller_stocks_loop_mset:
  "seller_stocks_loop F ids [] = (Inr new, ids') \<Longrightarrow>
     mset (map (\<lambda>e. py_get e ''offer_id'') new) + mset (map Inr ids') = mset (map Inr ids)"
proof (induction F arbitrary: ids new)
  case Nil
  then show ?case by simp
next
  case (Cons w F)
  show ?case
  proof (cases "watch_code w \<in> set ids")
    case False
    with Cons show ?thesis by simp
  next
    case True
    show ?thesis
    proof (cases "normalize_quantity (watch_get w key_count)")
      case (Inl e)
      with True Cons.prems show ?thesis by simp
    next
      case (Inr n)
      let ?ids = "remove1 (watch_code w) ids"
      from Cons.prems seller_stocks_loop_step [OF True Inr, where F = F]
      obtain new' where l: "seller_stocks_loop F ?ids [] = (Inr new', ids')"
        and n: "new = PyDict [(''offer_id'', watch_code w), (''stock'', PyInt n)] # new'"
        by (auto split: prod.splits sum.splits)
      have "mset (map (\<lambda>e. py_get e ''offer_id'') new') + mset (map Inr ids')
              = mset (map (Inr :: pyval \<Rightarrow> error + pyval) ?ids)"
        by (rule Cons.IH [OF l])
      moreover have "mset (map (Inr :: pyval \<Rightarrow> error + pyval) ids)
          = add_mset (Inr (watch_code w)) (mset (map Inr ?ids))"
        by (rule mset_map_remove1 [OF True, symmetric])
      ultimately show ?thesis using n by simp
    qed
  qed
qed

lemma seller_stocks_loop_rest:
  "distinct ids \<Longrightarrow> seller_stocks_loop F ids [] = (Inr new, ids') \<Longrightarrow>
     ids' = filter (\<lambda>x. x \<notin> watch_code ` set F) ids"
proof (induction F arbitrary: ids new)
  case Nil
  then show ?case by simp
next
  case (Cons w F)
  show ?case
  proof (cases "watch_code w \<in> set ids")
    case False
    then have "filter (\<lambda>x. x \<notin> watch_code ` set (w # F)) ids
                = filter (\<lambda>x. x \<notin> watch_code ` set F) ids"
      by (intro filter_cong) auto
    with False Cons show ?thesis by simp
  next
    case True
    show ?thesis
    proof (cases "normalize_quantity (watch_get w key_count)")
      case (Inl e)
      with True Cons.prems show ?thesis by simp
    next
      case (Inr n)
      let ?ids = "remove1 (watch_code w) ids"
      from Cons.prems(2) seller_stocks_loop_step [OF True Inr, where F = F]
      obtain new' where l: "seller_stocks_loop F ?ids [] = (Inr new', ids')"
        by (auto split: prod.splits sum.splits)
      have r: "?ids = filter (\<lambda>x. x \<noteq> watch_code w) ids"
        using Cons.prems(1) by (rule distinct_remove1_filter)
      have "ids' = filter (\<lambda>x. x \<notin> watch_code ` set F) ?ids"
        using Cons.IH [OF _ l] Cons.prems(1) by simp
      also have "\<dots> = filter (\<lambda>x. x \<notin> watch_code ` set (w # F)) ids"
        unfolding r by (auto intro: filter_cong)
      finally show ?thesis .
    qed
  qed
qed

lemma seller_stocks_loop_entries:
  "distinct ids \<Longrightarrow> seller_stocks_loop F ids [] = (Inr new, ids') \<Longrightarrow> e \<in> set new \<Longrightarrow>
     \<exists>x w n. x \<in> set ids \<and> find (\<lambda>w. watch_code w = x) F = Some w
        \<and> normalize_quantity (watch_get w key_count) = Inr n
        \<and> e = PyDict [(''offer_id'', x), (''stock'', PyInt n)]"
proof (induction F arbitrary: ids new)
  case Nil
  then show ?case by simp
next
  case (Cons w F)
  show ?case
  proof (cases "watch_code w \<in> set ids")
    case False
    with Cons.prems have "seller_stocks_loop F ids [] = (Inr new, ids')" by simp
    from Cons.IH [OF Cons.prems(1) this Cons.prems(3)]
    obtain x w' n where x: "x \<in> set ids" "find (\<lambda>w. watch_code w = x) F = Some w'"
      "normalize_quantity (watch_get w' key_count) = Inr n"
      "e = PyDict [(''offer_id'', x), (''stock'', PyInt n)]" by blast
    then have "watch_code w \<noteq> x" using False by auto
    with x show ?thesis by auto
  next
    case True
    show ?thesis
    proof (cases "normalize_quantity (watch_get w key_count)")
      case (Inl e)
      with True Cons.prems show ?thesis by simp
    next
      case (Inr n)
      let ?ids = "remove1 (watch_code w) ids"
      from Cons.prems(2) seller_stocks_loop_step [OF True Inr, where F = F]
      obtain new' where l: "seller_stocks_loop F ?ids [] = (Inr new', ids')"
        and n: "new = PyDict [(''offer_id'', watch_code w), (''stock'', PyInt n)] # new'"
        by (auto split: prod.splits sum.splits)
      show ?thesis
      proof (cases "e \<in> set new'")
        case False
        with n Cons.prems(3) have "e = PyDict [(''offer_id'', watch_code w), (''stock'', PyInt n)]"
          by simp
        with True Inr show ?thesis by auto
      next
        case e: True
        have d: "distinct ?ids" using Cons.prems(1) by simp
        from Cons.IH [OF d l e]
        obtain x w' k where x: "x \<in> set ?ids" "find (\<lambda>w. watch_code w = x) F = Some w'"
          "normalize_quantity (watch_get w' key_count) = Inr k"
          "e = PyDict [(''offer_id'', x), (''stock'', PyInt k)]" by blast
        have "x \<noteq> watch_code w \<and> x \<in> set ids" using x(1) Cons.prems(1) by simp
        with x show ?thesis by auto
      qed
    qed
  qed
qed

lemma filter_distinct_map:
  "distinct (map f xs) \<Longrightarrow> e \<in> set xs \<Longrightarrow> filter (\<lambda>y. f y = f e) xs = [e]"
proof (induction xs)
  case Nil
  then show ?case by simp
next
  case (Cons a xs)
  show ?case
  proof (cases "a = e")
    case True
    have "f e \<notin> f ` set xs" using Cons.prems(1) True by simp
    then have "\<forall>y\<in>set xs. f y \<noteq> f e" by (metis image_eqI)
    then have "filter (\<lambda>y. f y = f e) xs = []"
      by (simp add: filter_empty_conv)
    with True show ?thesis by simp
  next
    case False
    with Cons.prems have "e \<in> set xs" "f a \<noteq> f e" by auto
    with Cons show ?thesis by simp
  qed
qed

lemma find_None_image: "x \<notin> f ` set F \<Longrightarrow> find (\<lambda>w. f w = x) F = None"
  by (auto simp: find_None_iff)

lemma seller_create_stocks_covers:
  assumes d: "distinct L" and c: "seller_create_stocks F L = (Inr stocks, L')"
  shows "mset (map (\<lambda>e. py_get e ''offer_id'') stocks) = mset (map Inr L)
    \<and> (\<forall>x\<in>set L. \<exists>n.
          filter (\<lambda>e. py_get e ''offer_id'' = Inr x) stocks
            = [PyDict [(''offer_id'', x), (''stock'', PyInt n)]]
          \<and> (case find (\<lambda>w. watch_code w = x) F of
                None \<Rightarrow> n = 0
              | Some w \<Rightarrow> normalize_quantity (watch_get w key_count) = Inr n))"
proof -
  let ?off = "\<lambda>e. py_get e ''offer_id''"
  let ?zero = "\<lambda>offer_id. PyDict [(''offer_id'', offer_id), (''stock'', PyInt 0)]"
  from c obtain new where l: "seller_stocks_loop F L [] = (Inr new, L')"
    and s: "stocks = new @ map ?zero L'"
    by (auto simp: seller_create_stocks_def split: prod.splits sum.splits)
  have z: "map ?off (map ?zero L') = map Inr L'" by simp
  have m: "mset (map ?off stocks) = mset (map Inr L)"
    using seller_stocks_loop_mset [OF l] unfolding s map_append z by simp
  have r: "L' = filter (\<lambda>x. x \<notin> watch_code ` set F) L"
    by (rule seller_stocks_loop_rest [OF d l])
  have ent: "\<exists>x n. x \<in> set L \<and> e = PyDict [(''offer_id'', x), (''stock'', PyInt n)]
        \<and> (case find (\<lambda>w. watch_code w = x) F of
              None \<Rightarrow> n = 0
            | Some w \<Rightarrow> normalize_quantity (watch_get w key_count) = Inr n)"
    if e: "e \<in> set stocks" for e
  proof (cases "e \<in> set new")
    case True
    from seller_stocks_loop_entries [OF d l True] show ?thesis by fastforce
  next
    case False
    with e s obtain x where x: "x \<in> set L'" "e = ?zero x" by auto
    then have "x \<in> set L" "find (\<lambda>w. watch_code w = x) F = None"
      using r find_None_image [of x watch_code F] by auto
    with x show ?thesis by auto
  qed
  have dist: "distinct (map ?off stocks)"
  proof -
    have "distinct (map (Inr :: pyval \<Rightarrow> error + pyval) L)"
      using d by (simp add: distinct_map)
    then show ?thesis using m mset_eq_imp_distinct_iff by blast
  qed
  have one: "\<exists>n. filter (\<lambda>e. ?off e = Inr x) stocks
            = [PyDict [(''offer_id'', x), (''stock'', PyInt n)]]
          \<and> (case find (\<lambda>w. watch_code w = x) F of
                None \<Rightarrow> n = 0
              | Some w \<Rightarrow> normalize_quantity (watch_get w key_count) = Inr n)"
    if x: "x \<in> set L" for x
  proof -
    have "Inr x \<in> set (map ?off stocks)"
      using x m by (metis image_eqI list.set_map set_mset_mset)
    then obtain e where e: "e \<in> set stocks" "?off e = Inr x" by auto
    from ent [OF e(1)] obtain x' n where xn: "e = PyDict [(''offer_id'', x'), (''stock'', PyInt n)]"
      "case find (\<lambda>w. watch_code w = x') F of
              None \<Rightarrow> n = 0
            | Some w \<Rightarrow> normalize_quantity (watch_get w key_count) = Inr n" by blast
    with e(2) have "x' = x" by simp
    moreover have "filter (\<lambda>y. ?off y = ?off e) stocks = [e]"
      by (rule filter_distinct_map [OF dist e(1)])
    ultimately show ?thesis using xn e(2) by auto
  qed
  from m one show ?thesis by blast
qed


lemma market_stocks_loop_acc:
  "market_stocks_loop date wh F ids acc =
     (case market_stocks_loop date wh F ids [] of
        (Inl e, i) \<Rightarrow> (Inl e, i)
      | (Inr new, i) \<Rightarrow> (Inr (acc @ new), i))"
proof (induction F arbitrary: ids acc)
  case Nil
  show ?case by simp
next
  case (Cons w F)
  show ?case
  proof (cases "watch_code w \<in> set ids")
    case False
    then show ?thesis using Cons.IH [of ids acc] by simp
  next
    case True
    show ?thesis
    proof (cases "normalize_quantity (watch_get w key_count)")
      case (Inl e)
      with True show ?thesis by simp
    next
      case (Inr n)
      let ?e = "PyDict [(''sku'', watch_code w), (''warehouseId'', PyStr wh), (''items'', PyList [PyDict [(''count'', PyInt n), (''type'', PyStr ''FIT''), (''updatedAt'', PyStr date)]])]"
      let ?ids = "remove1 (watch_code w) ids"
      have a: "market_stocks_loop date wh (w # F) ids acc = market_stocks_loop date wh F ?ids (acc @ [?e])"
        using True Inr by simp
      have b: "market_stocks_loop date wh (w # F) ids [] = market_stocks_loop date wh F ?ids [?e]"
        using True Inr by simp
      show ?thesis
        unfolding a b
        by (subst Cons.IH [of ?ids "acc @ [?e]"], subst Cons.IH [of ?ids "[?e]"])
           (simp split: prod.splits sum.splits)
    qed
  qed
qed

lemma market_stocks_loop_step:
  assumes "watch_code w \<in> set ids" "normalize_quantity (watch_get w key_count) = Inr n"
  shows "market_stocks_loop date wh (w # F) ids [] =
     (case market_stocks_loop date wh F (remove1 (watch_code w) ids) [] of
        (Inl e, i) \<Rightarrow> (Inl e, i)
      | (Inr new, i) \<Rightarrow>
          (Inr (PyDict [(''sku'', watch_code w), (''warehouseId'', PyStr wh), (''items'', PyList [PyDict [(''count'', PyInt n), (''type'', PyStr ''FIT''), (''updatedAt'', PyStr date)]])] # new), i))"
proof -
  have "market_stocks_loop date wh (w # F) ids [] =
      market_stocks_loop date wh F (remove1 (watch_code w) ids)
        [PyDict [(''sku'', watch_code w), (''warehouseId'', PyStr wh), (''items'', PyList [PyDict [(''count'', PyInt n), (''type'', PyStr ''FIT''), (''updatedAt'', PyStr date)]])]]"
    using assms by simp
  then show ?thesis
    by (subst (asm) market_stocks_loop_acc) (simp split: prod.splits sum.splits)
qed

lemma market_stocks_loop_mset:
  "market_stocks_loop date wh F ids [] = (Inr new, ids') \<Longrightarrow>
     mset (map (\<lambda>e. py_get e ''sku'') new) + mset (map Inr ids') = mset (map Inr ids)"
proof (induction F arbitrary: ids new)
  case Nil
  then show ?case by simp
next
  case (Cons w F)
  show ?case
  proof (cases "watch_code w \<in> set ids")
    case False
    with Cons show ?thesis by simp
  next
    case True
    show ?thesis
    proof (cases "normalize_quantity (watch_get w key_count)")
      case (Inl e)
      with True Cons.prems show ?thesis by simp
    next
      case (Inr n)
      let ?ids = "remove1 (watch_code w) ids"
      from Cons.prems market_stocks_loop_step [OF True Inr, where F = F]
      obtain new' where l: "market_stocks_loop date wh F ?ids [] = (Inr new', ids')"
        and n: "new = PyDict [(''sku'', watch_code w), (''warehouseId'', PyStr wh), (''items'', PyList [PyDict [(''count'', PyInt n), (''type'', PyStr ''FIT''), (''updatedAt'', PyStr date)]])] # new'"
        by (auto split: prod.splits sum.splits)
      have "mset (map (\<lambda>e. py_get e ''sku'') new') + mset (map Inr ids')
              = mset (map (Inr :: pyval \<Rightarrow> error + pyval) ?ids)"
        by (rule Cons.IH [OF l])
      moreover have "mset (map (Inr :: pyval \<Rightarrow> error + pyval) ids)
          = add_mset (Inr (watch_code w)) (mset (map Inr ?ids))"
        by (rule mset_map_remove1 [OF True, symmetric])
      ultimately show ?thesis using n by simp
    qed
  qed
qed

lemma market_stocks_loop_rest:
  "distinct ids \<Longrightarrow> market_stocks_loop date wh F ids [] = (Inr new, ids') \<Longrightarrow>
     ids' = filter (\<lambda>x. x \<notin> watch_code ` set F) ids"
proof (induction F arbitrary: ids new)
  case Nil
  then show ?case by simp
next
  case (Cons w F)
  show ?case
  proof (cases "watch_code w \<in> set ids")
    case False
    then have "filter (\<lambda>x. x \<notin> watch_code ` set (w # F)) ids
                = filter (\<lambda>x. x \<notin> watch_code ` set F) ids"
      by (intro filter_cong) auto
    with False Cons show ?thesis by simp
  next
    case True
    show ?thesis
    proof (cases "normalize_quantity (watch_get w key_count)")
      case (Inl e)
      with True Cons.prems show ?thesis by simp
    next
      case (Inr n)
      let ?ids = "remove1 (watch_code w) ids"
      from Cons.prems(2) market_stocks_loop_step [OF True Inr, where F = F]
      obtain new' where l: "market_stocks_loop date wh F ?ids [] = (Inr new', ids')"
        by (auto split: prod.splits sum.splits)
      have r: "?ids = filter (\<lambda>x. x \<noteq> watch_code w) ids"
        using Cons.prems(1) by (rule distinct_remove1_filter)
      have "ids' = filter (\<lambda>x. x \<notin> watch_code ` set F) ?ids"
        using Cons.IH [OF _ l] Cons.prems(1) by simp
      also have "\<dots> = filter (\<lambda>x. x \<notin> watch_code ` set (w # F)) ids"
        unfolding r by (auto intro: filter_cong)
      finally show ?thesis .
    qed
  qed
qed

lemma market_stocks_loop_entries:
  "distinct ids \<Longrightarrow> market_stocks_loop date wh F ids [] = (Inr new, ids') \<Longrightarrow> e \<in> set new \<Longrightarrow>
     \<exists>x w n. x \<in> set ids \<and> find (\<lambda>w. watch_code w = x) F = Some w
        \<and> normalize_quantity (watch_get w key_count) = Inr n
        \<and> e = PyDict [(''sku'', x), (''warehouseId'', PyStr wh), (''items'', PyList [PyDict [(''count'', PyInt n), (''type'', PyStr ''FIT''), (''updatedAt'', PyStr date)]])]"
proof (induction F arbitrary: ids new)
  case Nil
  then show ?case by simp
next
  case (Cons w F)
  show ?case
  proof (cases "watch_code w \<in> set ids")
    case False
    with Cons.prems have "market_stocks_loop date wh F ids [] = (Inr new, ids')" by simp
    from Cons.IH [OF Cons.prems(1) this Cons.prems(3)]
    obtain x w' n where x: "x \<in> set ids" "find (\<lambda>w. watch_code w = x) F = Some w'"
      "normalize_quantity (watch_get w' key_count) = Inr n"
      "e = PyDict [(''sku'', x), (''warehouseId'', PyStr wh), (''items'', PyList [PyDict [(''count'', PyInt n), (''type'', PyStr ''FIT''), (''updatedAt'', PyStr date)]])]" by blast
    then have "watch_code w \<noteq> x" using False by auto
    with x show ?thesis by auto
  next
    case True
    show ?thesis
    proof (cases "normalize_quantity (watch_get w key_count)")
      case (Inl e)
      with True Cons.prems show ?thesis by simp
    next
      case (Inr n)
      let ?ids = "remove1 (watch_code w) ids"
      from Cons.prems(2) market_stocks_loop_step [OF True Inr, where F = F]
      obtain new' where l: "market_stocks_loop date wh F ?ids [] = (Inr new', ids')"
        and n: "new = PyDict [(''sku'', watch_code w), (''warehouseId'', PyStr wh), (''items'', PyList [PyDict [(''count'', PyInt n), (''type'', PyStr ''FIT''), (''updatedAt'', PyStr date)]])] # new'"
        by (auto split: prod.splits sum.splits)
      show ?thesis
      proof (cases "e \<in> set new'")
        case False
        with n Cons.prems(3) have "e = PyDict [(''sku'', watch_code w), (''warehouseId'', PyStr wh), (''items'', PyList [PyDict [(''count'', PyInt n), (''type'', PyStr ''FIT''), (''updatedAt'', PyStr date)]])]"
          by simp
        with True Inr show ?thesis by auto
      next
        case e: True
        have d: "distinct ?ids" using Cons.prems(1) by simp
        from Cons.IH [OF d l e]
        obtain x w' k where x: "x \<in> set ?ids" "find (\<lambda>w. watch_code w = x) F = Some w'"
          "normalize_quantity (watch_get w' key_count) = Inr k"
          "e = PyDict [(''sku'', x), (''warehouseId'', PyStr wh), (''items'', PyList [PyDict [(''count'', PyInt k), (''type'', PyStr ''FIT''), (''updatedAt'', PyStr date)]])]" by blast
        have "x \<noteq> watch_code w \<and> x \<in> set ids" using x(1) Cons.prems(1) by simp
        with x show ?thesis by auto
      qed
    qed
  qed
qed

lemma market_create_stocks_covers:
  assumes d: "distinct L" and c: "market_create_stocks now F L wh = (Inr stocks, L')"
  shows "mset (map (\<lambda>e. py_get e ''sku'') stocks) = mset (map Inr L)
    \<and> (\<forall>x\<in>set L. \<exists>n.
          filter (\<lambda>e. py_get e ''sku'' = Inr x) stocks
            = [PyDict [(''sku'', x), (''warehouseId'', PyStr wh), (''items'', PyList [PyDict [(''count'', PyInt n), (''type'', PyStr ''FIT''), (''updatedAt'', PyStr (stock_date now))]])]]
          \<and> (case find (\<lambda>w. watch_code w = x) F of
                None \<Rightarrow> n = 0
              | Some w \<Rightarrow> normalize_quantity (watch_get w key_count) = Inr n))"
proof -
  let ?off = "\<lambda>e. py_get e ''sku''"
  let ?zero = "\<lambda>offer_id. PyDict [(''sku'', offer_id), (''warehouseId'', PyStr wh), (''items'', PyList [PyDict [(''count'', PyInt 0), (''type'', PyStr ''FIT''), (''updatedAt'', PyStr (stock_date now))]])]"
  from c obtain new where l: "market_stocks_loop (stock_date now) wh F L [] = (Inr new, L')"
    and s: "stocks = new @ map ?zero L'"
    by (auto simp: market_create_stocks_def Let_def split: prod.splits sum.splits)
  have z: "map ?off (map ?zero L') = map Inr L'" by simp
  have m: "mset (map ?off stocks) = mset (map Inr L)"
    using market_stocks_loop_mset [OF l] unfolding s map_append z by simp
  have r: "L' = filter (\<lambda>x. x \<notin> watch_code ` set F) L"
    by (rule market_stocks_loop_rest [OF d l])
  have ent: "\<exists>x n. x \<in> set L \<and> e = PyDict [(''sku'', x), (''warehouseId'', PyStr wh), (''items'', PyList [PyDict [(''count'', PyInt n), (''type'', PyStr ''FIT''), (''updatedAt'', PyStr (stock_date now))]])]
        \<and> (case find (\<lambda>w. watch_code w = x) F of
              None \<Rightarrow> n = 0
            | Some w \<Rightarrow> normalize_quantity (watch_get w key_count) = Inr n)"
    if e: "e \<in> set stocks" for e
  proof (cases "e \<in> set new")
    case True
    from market_stocks_loop_entries [OF d l True] show ?thesis by fastforce
  next
    case False
    with e s obtain x where x: "x \<in> set L'" "e = ?zero x" by auto
    then have "x \<in> set L" "find (\<lambda>w. watch_code w = x) F = None"
      using r find_None_image [of x watch_code F] by auto
    with x show ?thesis by auto
  qed
  have dist: "distinct (map ?off stocks)"
  proof -
    have "distinct (map (Inr :: pyval \<Rightarrow> error + pyval) L)"
      using d by (simp add: distinct_map)
    then show ?thesis using m mset_eq_imp_distinct_iff by blast
  qed
  have one: "\<exists>n. filter (\<lambda>e. ?off e = Inr x) stocks
            = [PyDict [(''sku'', x), (''warehouseId'', PyStr wh), (''items'', PyList [PyDict [(''count'', PyInt n), (''type'', PyStr ''FIT''), (''updatedAt'', PyStr (stock_date now))]])]]
          \<and> (case find (\<lambda>w. watch_code w = x) F of
                None \<Rightarrow> n = 0
              | Some w \<Rightarrow> normalize_quantity (watch_get w key_count) = Inr n)"
    if x: "x \<in> set L" for x
  proof -
    have "Inr x \<in> set (map ?off stocks)"
      using x m by (metis image_eqI list.set_map set_mset_mset)
    then obtain e where e: "e \<in> set stocks" "?off e = Inr x" by auto
    from ent [OF e(1)] obtain x' n where xn: "e = PyDict [(''sku'', x'), (''warehouseId'', PyStr wh), (''items'', PyList [PyDict [(''count'', PyInt n), (''type'', PyStr ''FIT''), (''updatedAt'', PyStr (stock_date now))]])]"
      "case find (\<lambda>w. watch_code w = x') F of
              None \<Rightarrow> n = 0
            | Some w \<Rightarrow> normalize_quantity (watch_get w key_count) = Inr n" by blast
    with e(2) have "x' = x" by simp
    moreover have "filter (\<lambda>y. ?off y = ?off e) stocks = [e]"
      by (rule filter_distinct_map [OF dist e(1)])
    ultimately show ?thesis using xn e(2) by auto
  qed
  from m one show ?thesis by blast
qed

lemma watch_code_example: "watch_code watch_example = PyStr ''73309''"
  by (simp add: watch_code_def watch_example_def watch_get_def key_code_def str_int_def
      str_nat.simps)

lemma quantity_example: "normalize_quantity (watch_get watch_example key_count) = Inr 2"
  by (simp add: normalize_quantity_def watch_example_def watch_get_def key_code_def
      key_count_def key_price_def str_int_def str_nat.simps)

lemma stock_date_example: "stock_date clock_example = ''2022-12-29T18:02:01Z''"
  by (simp add: stock_date_def clock_example_def isoformat_def zero_pad_def str_nat.simps)

lemma seller_create_stocks_example:
  "seller_create_stocks [watch_example] [PyStr ''136748'', PyStr ''73309'']
     = (Inr [PyDict [(''offer_id'', PyStr ''73309''), (''stock'', PyInt 2)],
             PyDict [(''offer_id'', PyStr ''136748''), (''stock'', PyInt 0)]],
        [PyStr ''136748''])"
  by (simp add: seller_create_stocks_def watch_code_example quantity_example)

lemma market_create_stocks_example:
  "market_create_stocks clock_example [watch_example] [PyStr ''136748'', PyStr ''73309''] wh
     = (Inr (market_stocks_example wh), [PyStr ''136748''])"
  by (simp add: market_create_stocks_def Let_def stock_date_example watch_code_example
      quantity_example market_stocks_example_def)

lemma seller_stocks_loop_returns:
  "\<forall>w\<in>set F. watch_code w \<in> set ids \<longrightarrow>
        (\<exists>n. normalize_quantity (watch_get w key_count) = Inr n) \<Longrightarrow>
     \<exists>new ids'. seller_stocks_loop F ids acc = (Inr new, ids')"
proof (induction F arbitrary: ids acc)
  case Nil
  then show ?case by simp
next
  case (Cons w F)
  show ?case
  proof (cases "watch_code w \<in> set ids")
    case False
    with Cons show ?thesis by simp
  next
    case True
    with Cons.prems obtain n where n: "normalize_quantity (watch_get w key_count) = Inr n"
      by auto
    have "\<forall>v\<in>set F. watch_code v \<in> set (remove1 (watch_code w) ids) \<longrightarrow>
        (\<exists>n. normalize_quantity (watch_get v key_count) = Inr n)"
      using Cons.prems by (auto dest: notin_set_remove1)
    from Cons.IH [OF this] True n show ?thesis by simp
  qed
qed

lemma market_stocks_loop_returns:
  "\<forall>w\<in>set F. watch_code w \<in> set ids \<longrightarrow>
        (\<exists>n. normalize_quantity (watch_get w key_count) = Inr n) \<Longrightarrow>
     \<exists>new ids'. market_stocks_loop date wh F ids acc = (Inr new, ids')"
proof (induction F arbitrary: ids acc)
  case Nil
  then show ?case by simp
next
  case (Cons w F)
  show ?case
  proof (cases "watch_code w \<in> set ids")
    case False
    with Cons show ?thesis by simp
  next
    case True
    with Cons.prems obtain n where n: "normalize_quantity (watch_get w key_count) = Inr n"
      by auto
    have "\<forall>v\<in>set F. watch_code v \<in> set (remove1 (watch_code w) ids) \<longrightarrow>
        (\<exists>n. normalize_quantity (watch_get v key_count) = Inr n)"
      using Cons.prems by (auto dest: notin_set_remove1)
    from Cons.IH [OF this] True n show ?thesis by simp
  qed
qed

lemma create_stocks_returns:
  assumes "\<forall>w\<in>set F. watch_code w \<in> set L \<longrightarrow>
        (\<exists>n. normalize_quantity (watch_get w key_count) = Inr n)"
  shows "(\<exists>stocks L'. seller_create_stocks F L = (Inr stocks, L'))
       \<and> (\<exists>stocks L'. market_create_stocks now F L wh = (Inr stocks, L'))"
proof
  from seller_stocks_loop_returns [OF assms, of "[]"]
  show "\<exists>stocks L'. seller_create_stocks F L = (Inr stocks, L')"
    by (auto simp: seller_create_stocks_def)
  from market_stocks_loop_returns [OF assms, of "stock_date now" wh "[]"]
  show "\<exists>stocks L'. market_create_stocks now F L wh = (Inr stocks, L')"
    by (auto simp: market_create_stocks_def Let_def)
qed

text \<open>
  C1. For a list \<open>L\<close> of listed offers without duplicates and any feed:
  \<^verbatim>\<open>create_stocks\<close> returns its batch when the quantity of every row of the feed with a
  listed code can be normalized; and when it returns its batch, the offer identifiers of
  the batch are exactly those of \<open>L\<close>, each once: for every \<open>x\<close> of \<open>L\<close> the batch has
  exactly one entry with that identifier, whose quantity is the normalized quantity of
  the first row of the feed with the code \<open>x\<close>, and \<open>0\<close> when the feed has no such row;
  every entry carries an identifier of \<open>L\<close>, so a code of the feed outside \<open>L\<close> gets none.
  This holds for \<^verbatim>\<open>seller.create_stocks\<close> and for \<^verbatim>\<open>market.create_stocks\<close>.
\<close>

theorem create_stocks_covers_listed:
  assumes "distinct L"
  shows "((\<forall>w\<in>set F. watch_code w \<in> set L \<longrightarrow>
              (\<exists>n. normalize_quantity (watch_get w key_count) = Inr n)) \<longrightarrow>
            (\<exists>stocks L'. seller_create_stocks F L = (Inr stocks, L'))
            \<and> (\<exists>stocks L'. market_create_stocks now F L wh = (Inr stocks, L')))
       \<and> (seller_create_stocks F L = (Inr stocks, L') \<longrightarrow>
            mset (map (\<lambda>e. py_get e ''offer_id'') stocks) = mset (map Inr L)
            \<and> (\<forall>x\<in>set L. \<exists>n.
                  filter (\<lambda>e. py_get e ''offer_id'' = Inr x) stocks
                    = [PyDict [(''offer_id'', x), (''stock'', PyInt n)]]
                  \<and> (case find (\<lambda>w. watch_code w = x) F of
                        None \<Rightarrow> n = 0
                      | Some w \<Rightarrow> normalize_quantity (watch_get w key_count) = Inr n)))
       \<and> (market_create_stocks now F L wh = (Inr mstocks, L2') \<longrightarrow>
            mset (map (\<lambda>e. py_get e ''sku'') mstocks) = mset (map Inr L)
            \<and> (\<forall>x\<in>set L. \<exists>n.
                  filter (\<lambda>e. py_get e ''sku'' = Inr x) mstocks
                    = [PyDict [(''sku'', x), (''warehouseId'', PyStr wh),
                               (''items'', PyList [PyDict [(''count'', PyInt n),
                                                           (''type'', PyStr ''FIT''),
                                                           (''updatedAt'',
                                                            PyStr (stock_date now))]])]]
                  \<and> (case find (\<lambda>w. watch_code w = x) F of
                        None \<Rightarrow> n = 0
                      | Some w \<Rightarrow> normalize_quantity (watch_get w key_count) = Inr n)))"
proof (intro conjI)
  show "(\<forall>w\<in>set F. watch_code w \<in> set L \<longrightarrow>
              (\<exists>n. normalize_quantity (watch_get w key_count) = Inr n)) \<longrightarrow>
            (\<exists>stocks L'. seller_create_stocks F L = (Inr stocks, L'))
            \<and> (\<exists>stocks L'. market_create_stocks now F L wh = (Inr stocks, L'))"
    using create_stocks_returns [where F = F and L = L and now = now and wh = wh] by blast
  show "seller_create_stocks F L = (Inr stocks, L') \<longrightarrow>
            mset (map (\<lambda>e. py_get e ''offer_id'') stocks) = mset (map Inr L)
            \<and> (\<forall>x\<in>set L. \<exists>n.
                  filter (\<lambda>e. py_get e ''offer_id'' = Inr x) stocks
                    = [PyDict [(''offer_id'', x), (''stock'', PyInt n)]]
                  \<and> (case find (\<lambda>w. watch_code w = x) F of
                        None \<Rightarrow> n = 0
                      | Some w \<Rightarrow> normalize_quantity (watch_get w key_count) = Inr n))"
    using seller_create_stocks_covers [OF assms, where F = F and stocks = stocks and L' = L']
    by blast
  show "market_create_stocks now F L wh = (Inr mstocks, L2') \<longrightarrow>
            mset (map (\<lambda>e. py_get e ''sku'') mstocks) = mset (map Inr L)
            \<and> (\<forall>x\<in>set L. \<exists>n.
                  filter (\<lambda>e. py_get e ''sku'' = Inr x) mstocks
                    = [PyDict [(''sku'', x), (''warehouseId'', PyStr wh),
                               (''items'', PyList [PyDict [(''count'', PyInt n),
                                                           (''type'', PyStr ''FIT''),
                                                           (''updatedAt'',
                                                            PyStr (stock_date now))]])]]
                  \<and> (case find (\<lambda>w. watch_code w = x) F of
                        None \<Rightarrow> n = 0
                      | Some w \<Rightarrow> normalize_quantity (watch_get w key_count) = Inr n))"
    using market_create_stocks_covers
      [OF assms, where now = now and F = F and wh = wh and stocks = mstocks and L' = L2']
    by blast
qed

theorem create_stocks_covers_listed_witness:
  "distinct [PyStr ''136748'', PyStr ''73309'']
   \<and> seller_create_stocks [watch_example] [PyStr ''136748'', PyStr ''73309'']
       = (Inr [PyDict [(''offer_id'', PyStr ''73309''), (''stock'', PyInt 2)],
               PyDict [(''offer_id'', PyStr ''136748''), (''stock'', PyInt 0)]],
          [PyStr ''136748''])
   \<and> mset (map (\<lambda>e. py_get e ''offer_id'')
          [PyDict [(''offer_id'', PyStr ''73309''), (''stock'', PyInt 2)],
           PyDict [(''offer_id'', PyStr ''136748''), (''stock'', PyInt 0)]])
       = mset (map Inr [PyStr ''136748'', PyStr ''73309''])"
proof -
  have d: "distinct [PyStr ''136748'', PyStr ''73309'']" by simp
  from create_stocks_covers_listed
      [OF d, where F = "[watch_example]" and L' = "[PyStr ''136748'']"
         and stocks = "[PyDict [(''offer_id'', PyStr ''73309''), (''stock'', PyInt 2)],
                        PyDict [(''offer_id'', PyStr ''136748''), (''stock'', PyInt 0)]]"]
    seller_create_stocks_example
  have "mset (map (\<lambda>e. py_get e ''offer_id'')
          [PyDict [(''offer_id'', PyStr ''73309''), (''stock'', PyInt 2)],
           PyDict [(''offer_id'', PyStr ''136748''), (''stock'', PyInt 0)]])
       = mset (map Inr [PyStr ''136748'', PyStr ''73309''])"
    by blast
  with d seller_create_stocks_example show ?thesis by blast
qed

text \<open>
  C2. \<^verbatim>\<open>create_stocks\<close> does not work on a copy: \<^verbatim>\<open>offer_ids.remove(...)\<close> acts on the list
  of the caller. With the row of the docstring and the listed offers \<^verbatim>\<open>136748\<close> and
  \<^verbatim>\<open>73309\<close>, the caller's list holds only \<^verbatim>\<open>136748\<close> afterwards, in both modules.
\<close>

theorem create_stocks_changes_offer_ids:
  "snd (seller_create_stocks [watch_example] [PyStr ''136748'', PyStr ''73309''])
     = [PyStr ''136748'']
   \<and> snd (market_create_stocks clock_example [watch_example]
            [PyStr ''136748'', PyStr ''73309''] ''W1'')
     = [PyStr ''136748'']"
  by (simp add: seller_create_stocks_example market_create_stocks_example)

section \<open>The time stamp of a stock update\<close>

lemma digit_char: "d < 10 \<Longrightarrow> is_digit (''0123456789'' ! d) \<and> digit_val (''0123456789'' ! d) = d"
proof -
  assume "d < 10"
  then have "d \<in> {0, 1, 2, 3, 4, 5, 6, 7, 8, 9}" by auto
  then show ?thesis
    by (auto simp: is_digit_def digit_val_def)
qed

lemma str_nat_digits: "c \<in> set (str_nat n) \<Longrightarrow> is_digit c"
proof (induction n rule: str_nat.induct)
  case (1 n)
  show ?case
  proof (cases "n < 10")
    case True
    with 1(2) show ?thesis by (simp add: str_nat.simps [of n] digit_char)
  next
    case False
    have "n mod 10 < 10" by simp
    with 1 False show ?thesis
      by (auto simp: str_nat.simps [of n] digit_char)
  qed
qed

lemma decimal_value_snoc: "decimal_value (s @ [c]) = 10 * decimal_value s + digit_val c"
  by (simp add: decimal_value_def)

lemma decimal_value_str_nat: "decimal_value (str_nat n) = n"
proof (induction n rule: str_nat.induct)
  case (1 n)
  show ?case
  proof (cases "n < 10")
    case True
    then show ?thesis by (simp add: str_nat.simps [of n] decimal_value_def digit_char)
  next
    case False
    have "n mod 10 < 10" by simp
    then have "digit_val (''0123456789'' ! (n mod 10)) = n mod 10" using digit_char by blast
    with 1 False show ?thesis
      by (simp add: str_nat.simps [of n] decimal_value_snoc)
  qed
qed

lemma length_str_nat: "0 < k \<Longrightarrow> n < 10 ^ k \<Longrightarrow> length (str_nat n) \<le> k"
proof (induction n arbitrary: k rule: str_nat.induct)
  case (1 n)
  show ?case
  proof (cases "n < 10")
    case True
    with 1(2) show ?thesis by (simp add: str_nat.simps [of n])
  next
    case False
    have "1 < k"
    proof (rule ccontr)
      assume "\<not> 1 < k"
      with 1(2) have "k = 1" by simp
      with 1(3) False show False by simp
    qed
    then obtain j where k: "k = Suc j" "0 < j" by (cases k) auto
    with 1(3) have "n div 10 < 10 ^ j" by (simp add: less_mult_imp_div_less mult.commute)
    with 1(1) [OF False k(2)] have "length (str_nat (n div 10)) \<le> j" by simp
    with False k show ?thesis by (simp add: str_nat.simps [of n])
  qed
qed

lemma decimal_value_zeros: "decimal_value (replicate j (CHR ''0'') @ s) = decimal_value s"
proof -
  have "foldl (\<lambda>a c. 10 * a + digit_val c) 0 (replicate j (CHR ''0'')) = 0"
    by (induction j) (simp_all add: digit_val_def)
  then show ?thesis by (simp add: decimal_value_def)
qed

lemma zero_pad_field: "0 < k \<Longrightarrow> n < 10 ^ k \<Longrightarrow> decimal_field k n (zero_pad k n)"
proof -
  assume "0 < k" "n < 10 ^ k"
  then have "length (str_nat n) \<le> k" by (rule length_str_nat)
  then have "length (zero_pad k n) = k" by (simp add: zero_pad_def)
  moreover have "is_digit (CHR ''0'')" by (simp add: is_digit_def)
  then have "\<forall>c\<in>set (zero_pad k n). is_digit c"
    by (auto simp: zero_pad_def str_nat_digits)
  moreover have "decimal_value (zero_pad k n) = n"
    by (simp add: zero_pad_def decimal_value_zeros decimal_value_str_nat)
  ultimately show ?thesis by (simp add: decimal_field_def)
qed

lemma stock_date_second_precision: "stock_date (now\<lparr>microsecond := us\<rparr>) = stock_date now"
  by (simp add: stock_date_def isoformat_def)

lemma stock_date_format:
  assumes "valid_datetime now"
  shows "\<exists>y mo d h mi s.
     stock_date now = y @ ''-'' @ mo @ ''-'' @ d @ ''T'' @ h @ '':'' @ mi @ '':'' @ s @ ''Z''
     \<and> decimal_field 4 (year now) y \<and> decimal_field 2 (month now) mo
     \<and> decimal_field 2 (day now) d \<and> decimal_field 2 (hour now) h
     \<and> decimal_field 2 (minute now) mi \<and> decimal_field 2 (second now) s"
proof -
  have "decimal_field 4 (year now) (zero_pad 4 (year now))"
    using assms by (intro zero_pad_field) (simp_all add: valid_datetime_def)
  moreover have "decimal_field 2 (month now) (zero_pad 2 (month now))"
    using assms by (intro zero_pad_field) (simp_all add: valid_datetime_def)
  moreover have "decimal_field 2 (day now) (zero_pad 2 (day now))"
    using assms by (intro zero_pad_field) (simp_all add: valid_datetime_def)
  moreover have "decimal_field 2 (hour now) (zero_pad 2 (hour now))"
    using assms by (intro zero_pad_field) (simp_all add: valid_datetime_def)
  moreover have "decimal_field 2 (minute now) (zero_pad 2 (minute now))"
    using assms by (intro zero_pad_field) (simp_all add: valid_datetime_def)
  moreover have "decimal_field 2 (second now) (zero_pad 2 (second now))"
    using assms by (intro zero_pad_field) (simp_all add: valid_datetime_def)
  moreover have "stock_date now =
     zero_pad 4 (year now) @ ''-'' @ zero_pad 2 (month now) @ ''-'' @ zero_pad 2 (day now)
     @ ''T'' @ zero_pad 2 (hour now) @ '':'' @ zero_pad 2 (minute now)
     @ '':'' @ zero_pad 2 (second now) @ ''Z''"
    by (simp add: stock_date_def isoformat_def)
  ultimately show ?thesis by blast
qed

lemma market_stocks_loop_shape:
  "market_stocks_loop date wh F ids [] = (Inr new, ids') \<Longrightarrow> e \<in> set new \<Longrightarrow>
     \<exists>x n. e = PyDict [(''sku'', x), (''warehouseId'', PyStr wh),
                        (''items'', PyList [PyDict [(''count'', PyInt n),
                                                    (''type'', PyStr ''FIT''),
                                                    (''updatedAt'', PyStr date)]])]"
proof (induction F arbitrary: ids new)
  case Nil
  then show ?case by simp
next
  case (Cons w F)
  show ?case
  proof (cases "watch_code w \<in> set ids")
    case False
    with Cons show ?thesis by simp
  next
    case True
    show ?thesis
    proof (cases "normalize_quantity (watch_get w key_count)")
      case (Inl err)
      with True Cons.prems show ?thesis by simp
    next
      case (Inr n)
      from Cons.prems(1) market_stocks_loop_step [OF True Inr, where F = F]
      obtain new' where
        l: "market_stocks_loop date wh F (remove1 (watch_code w) ids) [] = (Inr new', ids')"
        and n: "new = PyDict [(''sku'', watch_code w), (''warehouseId'', PyStr wh),
                        (''items'', PyList [PyDict [(''count'', PyInt n),
                                                    (''type'', PyStr ''FIT''),
                                                    (''updatedAt'', PyStr date)]])] # new'"
        by (auto split: prod.splits sum.splits)
      show ?thesis
      proof (cases "e \<in> set new'")
        case True
        from Cons.IH [OF l True] show ?thesis .
      next
        case False
        with n Cons.prems(2) show ?thesis by auto
      qed
    qed
  qed
qed

lemma market_create_stocks_dated:
  assumes "market_create_stocks now F L wh = (Inr stocks, L')" "e \<in> set stocks"
  shows "\<exists>item. py_get e ''items'' = Inr (PyList [item])
           \<and> py_get item ''updatedAt'' = Inr (PyStr (stock_date now))"
proof -
  from assms(1) obtain new where
    l: "market_stocks_loop (stock_date now) wh F L [] = (Inr new, L')"
    and s: "stocks = new @
        map (\<lambda>offer_id.
               PyDict [(''sku'', offer_id), (''warehouseId'', PyStr wh),
                       (''items'', PyList [PyDict [(''count'', PyInt 0),
                                                   (''type'', PyStr ''FIT''),
                                                   (''updatedAt'',
                                                    PyStr (stock_date now))]])]) L'"
    by (auto simp: market_create_stocks_def Let_def split: prod.splits sum.splits)
  show ?thesis
  proof (cases "e \<in> set new")
    case True
    from market_stocks_loop_shape [OF l True] show ?thesis by auto
  next
    case False
    with assms(2) s show ?thesis by auto
  qed
qed

text \<open>
  C8, as the code has it. Every stock update that \<^verbatim>\<open>market.create_stocks\<close> builds carries,
  in its one item, the same \<^verbatim>\<open>updatedAt\<close>: the reading of the UTC clock taken once when
  the batch is built, without its microseconds, written as the four digits of the year,
  the two digits of month, day, hour, minute and second between \<^verbatim>\<open>-\<close>, \<^verbatim>\<open>T\<close> and \<^verbatim>\<open>:\<close>,
  and a final \<^verbatim>\<open>Z\<close>.
\<close>

theorem market_stock_timestamp:
  "(market_create_stocks now F L wh = (Inr stocks, L') \<longrightarrow>
      (\<forall>e\<in>set stocks. \<exists>item. py_get e ''items'' = Inr (PyList [item])
           \<and> py_get item ''updatedAt'' = Inr (PyStr (stock_date now))))
   \<and> stock_date (now\<lparr>microsecond := us\<rparr>) = stock_date now
   \<and> (valid_datetime now \<longrightarrow>
        (\<exists>y mo d h mi s.
           stock_date now
             = y @ ''-'' @ mo @ ''-'' @ d @ ''T'' @ h @ '':'' @ mi @ '':'' @ s @ ''Z''
           \<and> decimal_field 4 (year now) y \<and> decimal_field 2 (month now) mo
           \<and> decimal_field 2 (day now) d \<and> decimal_field 2 (hour now) h
           \<and> decimal_field 2 (minute now) mi \<and> decimal_field 2 (second now) s))"
  using market_create_stocks_dated
      [where now = now and F = F and L = L and wh = wh and stocks = stocks and L' = L']
    stock_date_second_precision [where now = now and us = us]
    stock_date_format [where now = now]
  by blast

theorem market_stock_timestamp_witness:
  "valid_datetime clock_example
   \<and> (\<exists>y mo d h mi s.
         ''2022-12-29T18:02:01Z''
           = y @ ''-'' @ mo @ ''-'' @ d @ ''T'' @ h @ '':'' @ mi @ '':'' @ s @ ''Z''
         \<and> decimal_field 4 2022 y \<and> decimal_field 2 12 mo
         \<and> decimal_field 2 29 d \<and> decimal_field 2 18 h
         \<and> decimal_field 2 2 mi \<and> decimal_field 2 1 s)"
proof -
  have v: "valid_datetime clock_example"
    by (simp add: valid_datetime_def clock_example_def)
  from market_stock_timestamp [where now = clock_example] v
  have "\<exists>y mo d h mi s.
           stock_date clock_example
             = y @ ''-'' @ mo @ ''-'' @ d @ ''T'' @ h @ '':'' @ mi @ '':'' @ s @ ''Z''
           \<and> decimal_field 4 (year clock_example) y
           \<and> decimal_field 2 (month clock_example) mo
           \<and> decimal_field 2 (day clock_example) d
           \<and> decimal_field 2 (hour clock_example) h
           \<and> decimal_field 2 (minute clock_example) mi
           \<and> decimal_field 2 (second clock_example) s"
    by blast
  then have "\<exists>y mo d h mi s.
         ''2022-12-29T18:02:01Z''
           = y @ ''-'' @ mo @ ''-'' @ d @ ''T'' @ h @ '':'' @ mi @ '':'' @ s @ ''Z''
         \<and> decimal_field 4 2022 y \<and> decimal_field 2 12 mo
         \<and> decimal_field 2 29 d \<and> decimal_field 2 18 h
         \<and> decimal_field 2 2 mi \<and> decimal_field 2 1 s"
    by (simp add: stock_date_example) (simp add: clock_example_def)
  with v show ?thesis by blast
qed

text \<open>
  C8 as the spec states it fails for the Ozon module: a stock update of
  \<^verbatim>\<open>seller.create_stocks\<close> has the two keys \<^verbatim>\<open>offer_id\<close> and \<^verbatim>\<open>stock\<close> and no time stamp.
\<close>

theorem seller_stock_timestamp_counterexample:
  "seller_create_stocks [watch_example] [PyStr ''136748'', PyStr ''73309'']
     = (Inr [PyDict [(''offer_id'', PyStr ''73309''), (''stock'', PyInt 2)],
             PyDict [(''offer_id'', PyStr ''136748''), (''stock'', PyInt 0)]],
        [PyStr ''136748''])
   \<and> map_of [(''offer_id'', PyStr ''73309''), (''stock'', PyInt 2)] ''updatedAt'' = None
   \<and> map_of [(''offer_id'', PyStr ''136748''), (''stock'', PyInt 0)] ''updatedAt'' = None"
  by (simp add: seller_create_stocks_example)

section \<open>Properties of \<^verbatim>\<open>create_prices\<close>\<close>

lemma seller_prices_loop_frame: "seller_prices_loop F L acc = (r, L') \<Longrightarrow> L' = L"
  by (induction F arbitrary: acc) (auto split: if_splits sum.splits)

lemma market_prices_loop_frame: "market_prices_loop F L acc = (r, L') \<Longrightarrow> L' = L"
  by (induction F arbitrary: acc) (auto split: if_splits sum.splits)

lemma seller_prices_loop_new:
  "seller_prices_loop F L acc = (Inr prices, L') \<Longrightarrow>
     \<exists>new. prices = acc @ new
       \<and> list_all2
            (\<lambda>w e. \<exists>p. price_conversion (watch_get w key_price) = Inr p
                 \<and> e = PyDict [(''auto_action_enabled'', PyStr ''UNKNOWN''),
                               (''currency_code'', PyStr ''RUB''),
                               (''offer_id'', watch_code w),
                               (''old_price'', PyStr ''0''),
                               (''price'', PyStr p)])
            (filter (\<lambda>w. watch_code w \<in> set L) F) new"
proof (induction F arbitrary: acc)
  case Nil
  then show ?case by simp
next
  case (Cons w F)
  show ?case
  proof (cases "watch_code w \<in> set L")
    case False
    with Cons show ?thesis by simp
  next
    case True
    show ?thesis
    proof (cases "price_conversion (watch_get w key_price)")
      case (Inl e)
      with True Cons.prems show ?thesis by simp
    next
      case (Inr p)
      let ?e = "PyDict [(''auto_action_enabled'', PyStr ''UNKNOWN''),
                               (''currency_code'', PyStr ''RUB''),
                               (''offer_id'', watch_code w),
                               (''old_price'', PyStr ''0''),
                               (''price'', PyStr p)]"
      from Cons.prems True Inr
      have "seller_prices_loop F L (acc @ [?e]) = (Inr prices, L')" by simp
      from Cons.IH [OF this] obtain new where n: "prices = (acc @ [?e]) @ new"
        and a: "list_all2
            (\<lambda>w e. \<exists>p. price_conversion (watch_get w key_price) = Inr p
                 \<and> e = PyDict [(''auto_action_enabled'', PyStr ''UNKNOWN''),
                               (''currency_code'', PyStr ''RUB''),
                               (''offer_id'', watch_code w),
                               (''old_price'', PyStr ''0''),
                               (''price'', PyStr p)])
            (filter (\<lambda>w. watch_code w \<in> set L) F) new" by blast
      have "prices = acc @ (?e # new)" using n by simp
      moreover have "list_all2
            (\<lambda>w e. \<exists>p. price_conversion (watch_get w key_price) = Inr p
                 \<and> e = PyDict [(''auto_action_enabled'', PyStr ''UNKNOWN''),
                               (''currency_code'', PyStr ''RUB''),
                               (''offer_id'', watch_code w),
                               (''old_price'', PyStr ''0''),
                               (''price'', PyStr p)])
            (filter (\<lambda>w. watch_code w \<in> set L) (w # F)) (?e # new)"
        using a True Inr by simp
      ultimately show ?thesis by blast
    qed
  qed
qed

lemma market_prices_loop_new:
  "market_prices_loop F L acc = (Inr prices, L') \<Longrightarrow>
     \<exists>new. prices = acc @ new
       \<and> list_all2
            (\<lambda>w e. \<exists>v. market_price_value (watch_get w key_price) = Inr v
                 \<and> e = PyDict [(''id'', watch_code w),
                               (''price'', PyDict [(''value'', PyInt v),
                                                   (''currencyId'', PyStr ''RUR'')])])
            (filter (\<lambda>w. watch_code w \<in> set L) F) new"
proof (induction F arbitrary: acc)
  case Nil
  then show ?case by simp
next
  case (Cons w F)
  show ?case
  proof (cases "watch_code w \<in> set L")
    case False
    with Cons show ?thesis by simp
  next
    case True
    show ?thesis
    proof (cases "market_price_value (watch_get w key_price)")
      case (Inl e)
      with True Cons.prems show ?thesis by simp
    next
      case (Inr v)
      let ?e = "PyDict [(''id'', watch_code w),
                               (''price'', PyDict [(''value'', PyInt v),
                                                   (''currencyId'', PyStr ''RUR'')])]"
      from Cons.prems True Inr
      have "market_prices_loop F L (acc @ [?e]) = (Inr prices, L')" by simp
      from Cons.IH [OF this] obtain new where n: "prices = (acc @ [?e]) @ new"
        and a: "list_all2
            (\<lambda>w e. \<exists>v. market_price_value (watch_get w key_price) = Inr v
                 \<and> e = PyDict [(''id'', watch_code w),
                               (''price'', PyDict [(''value'', PyInt v),
                                                   (''currencyId'', PyStr ''RUR'')])])
            (filter (\<lambda>w. watch_code w \<in> set L) F) new" by blast
      have "prices = acc @ (?e # new)" using n by simp
      moreover have "list_all2
            (\<lambda>w e. \<exists>v. market_price_value (watch_get w key_price) = Inr v
                 \<and> e = PyDict [(''id'', watch_code w),
                               (''price'', PyDict [(''value'', PyInt v),
                                                   (''currencyId'', PyStr ''RUR'')])])
            (filter (\<lambda>w. watch_code w \<in> set L) (w # F)) (?e # new)"
        using a True Inr by simp
      ultimately show ?thesis by blast
    qed
  qed
qed

lemma list_all2_offer:
  assumes "list_all2 R ws es" "\<And>w e. R w e \<Longrightarrow> f e = g w"
  shows "map f es = map g ws"
  using assms by (induction rule: list_all2_induct) auto


lemma price_example_value:
  "price_conversion (watch_get watch_example key_price) = Inr ''38440''"
  by (simp add: watch_example_def watch_get_def key_code_def key_count_def key_price_def
      re_sub_non_digits_def is_digit_def)

lemma seller_create_prices_example:
  "seller_create_prices [watch_example, watch_example] [PyStr ''136748'', PyStr ''73309'']
     = (Inr [PyDict [(''auto_action_enabled'', PyStr ''UNKNOWN''),
                     (''currency_code'', PyStr ''RUB''),
                     (''offer_id'', PyStr ''73309''),
                     (''old_price'', PyStr ''0''),
                     (''price'', PyStr ''38440'')],
             PyDict [(''auto_action_enabled'', PyStr ''UNKNOWN''),
                     (''currency_code'', PyStr ''RUB''),
                     (''offer_id'', PyStr ''73309''),
                     (''old_price'', PyStr ''0''),
                     (''price'', PyStr ''38440'')]],
        [PyStr ''136748'', PyStr ''73309''])"
  by (simp add: seller_create_prices_def watch_code_example price_example_value)

lemma seller_prices_loop_returns:
  "\<forall>w\<in>set F. watch_code w \<in> set L \<longrightarrow>
        (\<exists>p. price_conversion (watch_get w key_price) = Inr p) \<Longrightarrow>
     \<exists>prices. seller_prices_loop F L acc = (Inr prices, L)"
proof (induction F arbitrary: acc)
  case Nil
  then show ?case by simp
next
  case (Cons w F)
  show ?case
  proof (cases "watch_code w \<in> set L")
    case False
    with Cons show ?thesis by simp
  next
    case True
    with Cons.prems obtain p where p: "price_conversion (watch_get w key_price) = Inr p"
      by auto
    have "\<forall>v\<in>set F. watch_code v \<in> set L \<longrightarrow>
        (\<exists>p. price_conversion (watch_get v key_price) = Inr p)"
      using Cons.prems by simp
    from Cons.IH [OF this] True p show ?thesis by simp
  qed
qed

lemma market_prices_loop_returns:
  "\<forall>w\<in>set F. watch_code w \<in> set L \<longrightarrow>
        (\<exists>v. market_price_value (watch_get w key_price) = Inr v) \<Longrightarrow>
     \<exists>prices. market_prices_loop F L acc = (Inr prices, L)"
proof (induction F arbitrary: acc)
  case Nil
  then show ?case by simp
next
  case (Cons w F)
  show ?case
  proof (cases "watch_code w \<in> set L")
    case False
    with Cons show ?thesis by simp
  next
    case True
    with Cons.prems obtain v where v: "market_price_value (watch_get w key_price) = Inr v"
      by auto
    have "\<forall>u\<in>set F. watch_code u \<in> set L \<longrightarrow>
        (\<exists>v. market_price_value (watch_get u key_price) = Inr v)"
      using Cons.prems by simp
    from Cons.IH [OF this] True v show ?thesis by simp
  qed
qed

text \<open>
  C5. \<^verbatim>\<open>create_prices\<close> returns its list when the price of every row of the feed with a
  listed code can be converted. When it returns its list, the list has one entry for
  each row of the feed whose code is in \<open>L\<close>, in the order of the feed and with a row
  that comes twice giving two entries; the entry carries the code of its row and the
  converted price of that row; every entry's identifier is in \<open>L\<close>; and the caller's list
  \<open>L\<close> is what it was, also when the function raises. This holds in both modules.
\<close>

theorem create_prices_per_record:
  "((\<forall>w\<in>set F. watch_code w \<in> set L \<longrightarrow>
        (\<exists>p. price_conversion (watch_get w key_price) = Inr p)) \<longrightarrow>
      (\<exists>prices. seller_create_prices F L = (Inr prices, L)))
   \<and> ((\<forall>w\<in>set F. watch_code w \<in> set L \<longrightarrow>
        (\<exists>v. market_price_value (watch_get w key_price) = Inr v)) \<longrightarrow>
      (\<exists>prices. market_create_prices F L = (Inr prices, L)))
   \<and> (seller_create_prices F L = (r, L') \<longrightarrow> L' = L)
   \<and> (seller_create_prices F L = (Inr prices, L') \<longrightarrow>
        list_all2
          (\<lambda>w e. \<exists>p. price_conversion (watch_get w key_price) = Inr p
               \<and> e = PyDict [(''auto_action_enabled'', PyStr ''UNKNOWN''),
                             (''currency_code'', PyStr ''RUB''),
                             (''offer_id'', watch_code w),
                             (''old_price'', PyStr ''0''),
                             (''price'', PyStr p)])
          (filter (\<lambda>w. watch_code w \<in> set L) F) prices
        \<and> length prices = length (filter (\<lambda>w. watch_code w \<in> set L) F)
        \<and> (\<forall>e\<in>set prices. \<exists>x\<in>set L. py_get e ''offer_id'' = Inr x))
   \<and> (market_create_prices F L = (mr, L2') \<longrightarrow> L2' = L)
   \<and> (market_create_prices F L = (Inr mprices, L2') \<longrightarrow>
        list_all2
          (\<lambda>w e. \<exists>v. market_price_value (watch_get w key_price) = Inr v
               \<and> e = PyDict [(''id'', watch_code w),
                             (''price'', PyDict [(''value'', PyInt v),
                                                 (''currencyId'', PyStr ''RUR'')])])
          (filter (\<lambda>w. watch_code w \<in> set L) F) mprices
        \<and> length mprices = length (filter (\<lambda>w. watch_code w \<in> set L) F)
        \<and> (\<forall>e\<in>set mprices. \<exists>x\<in>set L. py_get e ''id'' = Inr x))"
proof (intro conjI impI)
  assume "\<forall>w\<in>set F. watch_code w \<in> set L \<longrightarrow>
        (\<exists>p. price_conversion (watch_get w key_price) = Inr p)"
  then show "\<exists>prices. seller_create_prices F L = (Inr prices, L)"
    unfolding seller_create_prices_def by (rule seller_prices_loop_returns)
next
  assume "\<forall>w\<in>set F. watch_code w \<in> set L \<longrightarrow>
        (\<exists>v. market_price_value (watch_get w key_price) = Inr v)"
  then show "\<exists>prices. market_create_prices F L = (Inr prices, L)"
    unfolding market_create_prices_def by (rule market_prices_loop_returns)
next
  assume "seller_create_prices F L = (r, L')"
  then show "L' = L" unfolding seller_create_prices_def by (rule seller_prices_loop_frame)
next
  assume "market_create_prices F L = (mr, L2')"
  then show "L2' = L" unfolding market_create_prices_def by (rule market_prices_loop_frame)
next
  assume a: "seller_create_prices F L = (Inr prices, L')"
  from seller_prices_loop_new [OF a [unfolded seller_create_prices_def]]
  show all: "list_all2
          (\<lambda>w e. \<exists>p. price_conversion (watch_get w key_price) = Inr p
               \<and> e = PyDict [(''auto_action_enabled'', PyStr ''UNKNOWN''),
                             (''currency_code'', PyStr ''RUB''),
                             (''offer_id'', watch_code w),
                             (''old_price'', PyStr ''0''),
                             (''price'', PyStr p)])
          (filter (\<lambda>w. watch_code w \<in> set L) F) prices" by simp
  then show "length prices = length (filter (\<lambda>w. watch_code w \<in> set L) F)"
    by (simp add: list_all2_lengthD)
  have "map (\<lambda>e. py_get e ''offer_id'') prices
          = map (\<lambda>w. Inr (watch_code w)) (filter (\<lambda>w. watch_code w \<in> set L) F)"
    by (rule list_all2_offer [OF all]) auto
  then have "set (map (\<lambda>e. py_get e ''offer_id'') prices) \<subseteq> Inr ` set L"
    by auto
  then show "\<forall>e\<in>set prices. \<exists>x\<in>set L. py_get e ''offer_id'' = Inr x" by auto
next
  assume a: "market_create_prices F L = (Inr mprices, L2')"
  from market_prices_loop_new [OF a [unfolded market_create_prices_def]]
  show all: "list_all2
          (\<lambda>w e. \<exists>v. market_price_value (watch_get w key_price) = Inr v
               \<and> e = PyDict [(''id'', watch_code w),
                             (''price'', PyDict [(''value'', PyInt v),
                                                 (''currencyId'', PyStr ''RUR'')])])
          (filter (\<lambda>w. watch_code w \<in> set L) F) mprices" by simp
  then show "length mprices = length (filter (\<lambda>w. watch_code w \<in> set L) F)"
    by (simp add: list_all2_lengthD)
  have "map (\<lambda>e. py_get e ''id'') mprices
          = map (\<lambda>w. Inr (watch_code w)) (filter (\<lambda>w. watch_code w \<in> set L) F)"
    by (rule list_all2_offer [OF all]) auto
  then have "set (map (\<lambda>e. py_get e ''id'') mprices) \<subseteq> Inr ` set L"
    by auto
  then show "\<forall>e\<in>set mprices. \<exists>x\<in>set L. py_get e ''id'' = Inr x" by auto
qed

theorem create_prices_per_record_witness:
  "seller_create_prices [watch_example, watch_example] [PyStr ''136748'', PyStr ''73309'']
     = (Inr [PyDict [(''auto_action_enabled'', PyStr ''UNKNOWN''),
                     (''currency_code'', PyStr ''RUB''),
                     (''offer_id'', PyStr ''73309''),
                     (''old_price'', PyStr ''0''),
                     (''price'', PyStr ''38440'')],
             PyDict [(''auto_action_enabled'', PyStr ''UNKNOWN''),
                     (''currency_code'', PyStr ''RUB''),
                     (''offer_id'', PyStr ''73309''),
                     (''old_price'', PyStr ''0''),
                     (''price'', PyStr ''38440'')]],
        [PyStr ''136748'', PyStr ''73309''])
   \<and> length (filter (\<lambda>w. watch_code w \<in> set [PyStr ''136748'', PyStr ''73309''])
        [watch_example, watch_example]) = 2"
proof -
  from create_prices_per_record
      [where F = "[watch_example, watch_example]"
         and L = "[PyStr ''136748'', PyStr ''73309'']"
         and L' = "[PyStr ''136748'', PyStr ''73309'']"
         and prices = "[PyDict [(''auto_action_enabled'', PyStr ''UNKNOWN''),
                     (''currency_code'', PyStr ''RUB''),
                     (''offer_id'', PyStr ''73309''),
                     (''old_price'', PyStr ''0''),
                     (''price'', PyStr ''38440'')],
             PyDict [(''auto_action_enabled'', PyStr ''UNKNOWN''),
                     (''currency_code'', PyStr ''RUB''),
                     (''offer_id'', PyStr ''73309''),
                     (''old_price'', PyStr ''0''),
                     (''price'', PyStr ''38440'')]]"]
    seller_create_prices_example
  have "length [PyDict [(''auto_action_enabled'', PyStr ''UNKNOWN''),
                     (''currency_code'', PyStr ''RUB''),
                     (''offer_id'', PyStr ''73309''),
                     (''old_price'', PyStr ''0''),
                     (''price'', PyStr ''38440'')],
             PyDict [(''auto_action_enabled'', PyStr ''UNKNOWN''),
                     (''currency_code'', PyStr ''RUB''),
                     (''offer_id'', PyStr ''73309''),
                     (''old_price'', PyStr ''0''),
                     (''price'', PyStr ''38440'')]]
     = length (filter (\<lambda>w. watch_code w \<in> set [PyStr ''136748'', PyStr ''73309''])
        [watch_example, watch_example])"
    by blast
  with seller_create_prices_example show ?thesis by simp
qed

section \<open>Properties of \<^verbatim>\<open>get_offer_ids\<close>\<close>

lemma concat_take_Suc:
  "k < length ps \<Longrightarrow>
     concat (map f (take (Suc k) ps)) = concat (map f (take k ps)) @ f (ps ! k)"
  by (simp add: take_Suc_conv_app_nth)

lemma seller_product_pages_run:
  assumes serves: "ozon_serves gpl ps" and j: "j < length ps" and ex: "ozon_exhausted ps j"
  shows "k \<le> j \<Longrightarrow>
     \<exists>m. k < m \<and> m \<le> Suc j \<and> ozon_exhausted ps (m - 1)
       \<and> (\<forall>i. k \<le> i \<and> i < m - 1 \<longrightarrow> \<not> ozon_exhausted ps i)
       \<and> seller_product_pages gpl k (ozon_cursor ps k) (concat (map items (take k ps)))
           = Some (Inr (concat (map items (take m ps))))"
proof (induction "j - k" arbitrary: k)
  case 0
  then have kj: "k = j" by simp
  have g: "gpl k (ozon_cursor ps k) = Inr (Some (ps ! k))"
    using serves j kj by (simp add: ozon_serves_def)
  have t: "total (ps ! k)
      = PyInt (int (length (concat (map items (take k ps)) @ items (ps ! k))))"
    using ex kj j by (simp add: ozon_exhausted_def concat_take_Suc)
  have "seller_product_pages gpl k (ozon_cursor ps k) (concat (map items (take k ps)))
           = Some (Inr (concat (map items (take (Suc k) ps))))"
    using g t j kj by (subst seller_product_pages.simps) (simp add: concat_take_Suc)
  with ex kj show ?case by (intro exI [of _ "Suc k"]) auto
next
  case (Suc n)
  then have kj: "k < j" by simp
  then have kl: "k < length ps" using j by simp
  have g: "gpl k (ozon_cursor ps k) = Inr (Some (ps ! k))"
    using serves kl by (simp add: ozon_serves_def)
  show ?case
  proof (cases "ozon_exhausted ps k")
    case True
    then have t: "total (ps ! k)
      = PyInt (int (length (concat (map items (take k ps)) @ items (ps ! k))))"
      using kl by (simp add: ozon_exhausted_def concat_take_Suc)
    have "seller_product_pages gpl k (ozon_cursor ps k) (concat (map items (take k ps)))
           = Some (Inr (concat (map items (take (Suc k) ps))))"
      using g t kl by (subst seller_product_pages.simps) (simp add: concat_take_Suc)
    with True kj show ?thesis by (intro exI [of _ "Suc k"]) auto
  next
    case False
    then have t: "total (ps ! k)
      \<noteq> PyInt (int (length (concat (map items (take k ps)) @ items (ps ! k))))"
      using kl by (simp add: ozon_exhausted_def concat_take_Suc)
    have n: "n = j - Suc k" using Suc(2) by simp
    have "Suc k \<le> j" using kj by simp
    from Suc(1) [OF n this] obtain m where m: "Suc k < m" "m \<le> Suc j"
      "ozon_exhausted ps (m - 1)"
      "\<forall>i. Suc k \<le> i \<and> i < m - 1 \<longrightarrow> \<not> ozon_exhausted ps i"
      "seller_product_pages gpl (Suc k) (ozon_cursor ps (Suc k))
          (concat (map items (take (Suc k) ps)))
         = Some (Inr (concat (map items (take m ps))))" by blast
    have "seller_product_pages gpl k (ozon_cursor ps k) (concat (map items (take k ps)))
        = seller_product_pages gpl (Suc k) (ozon_cursor ps (Suc k))
            (concat (map items (take (Suc k) ps)))"
      using g t kl by (subst seller_product_pages.simps) (simp add: concat_take_Suc)
    moreover have "\<forall>i. k \<le> i \<and> i < m - 1 \<longrightarrow> \<not> ozon_exhausted ps i"
    proof (intro allI impI)
      fix i assume "k \<le> i \<and> i < m - 1"
      then show "\<not> ozon_exhausted ps i"
        using False m(4) by (cases "i = k") auto
    qed
    ultimately show ?thesis using m by (intro exI [of _ m]) auto
  qed
qed

lemma seller_offer_ids_loop_ok:
  "\<forall>x\<in>set xs. is_dict x \<Longrightarrow>
     \<exists>ids. seller_offer_ids_loop xs acc = Inr (acc @ ids)
        \<and> map Inr ids = map (\<lambda>x. py_get x ''offer_id'') xs"
proof (induction xs arbitrary: acc)
  case Nil
  then show ?case by simp
next
  case (Cons x xs)
  from Cons.prems have "is_dict x" by simp
  then obtain d where x: "x = PyDict d" by (cases x) auto
  obtain v where v: "py_get x ''offer_id'' = Inr v" using x by simp
  have rest: "\<forall>x\<in>set xs. is_dict x" using Cons.prems by simp
  from Cons.IH [OF rest, of "acc @ [v]"] obtain ids where
    "seller_offer_ids_loop xs (acc @ [v]) = Inr ((acc @ [v]) @ ids)"
    "map Inr ids = map (\<lambda>x. py_get x ''offer_id'') xs"
    by blast
  with v show ?case by (intro exI [of _ "v # ids"]) simp
qed

lemma seller_get_offer_ids_returns:
  assumes "ps \<noteq> []" "ozon_serves gpl ps" "\<forall>p\<in>set ps. ozon_well_formed p"
    "ozon_exhausted ps (length ps - 1)"
  shows "\<exists>m ids. 0 < m \<and> m \<le> length ps \<and> ozon_exhausted ps (m - 1)
        \<and> (\<forall>i<m - 1. \<not> ozon_exhausted ps i)
        \<and> seller_get_offer_ids gpl = Some (Inr ids)
        \<and> map Inr ids = map (\<lambda>x. py_get x ''offer_id'') (concat (map items (take m ps)))
        \<and> length ids = length (concat (map items (take m ps)))"
proof -
  have j: "length ps - 1 < length ps" using assms(1) by simp
  from seller_product_pages_run [OF assms(2) j assms(4), of 0]
  obtain m where m: "0 < m" "m \<le> length ps" "ozon_exhausted ps (m - 1)"
    "\<forall>i. i < m - 1 \<longrightarrow> \<not> ozon_exhausted ps i"
    "seller_product_pages gpl 0 (PyStr []) [] = Some (Inr (concat (map items (take m ps))))"
    using assms(1) by auto
  have "\<forall>x\<in>set (concat (map items (take m ps))). is_dict x"
    using assms(3) by (auto simp: ozon_well_formed_def dest!: in_set_takeD)
  from seller_offer_ids_loop_ok [OF this, of "[]"] obtain ids where
    ids: "seller_offer_ids_loop (concat (map items (take m ps))) [] = Inr ids"
    "map Inr ids = map (\<lambda>x. py_get x ''offer_id'') (concat (map items (take m ps)))"
    by auto
  have "seller_get_offer_ids gpl = Some (Inr ids)"
    using m(5) ids(1) by (simp add: seller_get_offer_ids_def)
  moreover have "length ids = length (concat (map items (take m ps)))"
    using ids(2) by (metis length_map)
  ultimately show ?thesis using m ids(2) by blast
qed

lemma paging_token:
  "market_well_formed p \<Longrightarrow> py_get (paging p) ''nextPageToken'' = Inr (next_page_token p)"
  by (cases "paging p") (simp_all add: market_well_formed_def next_page_token_def)

lemma market_product_pages_run:
  assumes serves: "market_serves gpl ps" and wf: "\<forall>p\<in>set ps. market_well_formed p"
    and j: "j < length ps" and ex: "market_exhausted ps j"
  shows "k \<le> j \<Longrightarrow>
     \<exists>m. k < m \<and> m \<le> Suc j \<and> market_exhausted ps (m - 1)
       \<and> (\<forall>i. k \<le> i \<and> i < m - 1 \<longrightarrow> \<not> market_exhausted ps i)
       \<and> market_product_pages gpl k (market_cursor ps k)
            (concat (map offerMappingEntries (take k ps)))
           = Some (Inr (concat (map offerMappingEntries (take m ps))))"
proof (induction "j - k" arbitrary: k)
  case 0
  then have kj: "k = j" by simp
  have g: "gpl k (market_cursor ps k) = Inr (Some (ps ! k))"
    using serves j kj by (simp add: market_serves_def)
  have p: "py_get (paging (ps ! k)) ''nextPageToken'' = Inr (next_page_token (ps ! k))"
    using wf j kj by (intro paging_token) simp
  have t: "\<not> py_truthy (next_page_token (ps ! k))"
    using ex kj by (simp add: market_exhausted_def)
  have "market_product_pages gpl k (market_cursor ps k)
            (concat (map offerMappingEntries (take k ps)))
           = Some (Inr (concat (map offerMappingEntries (take (Suc k) ps))))"
    using g p t j kj by (subst market_product_pages.simps) (simp add: concat_take_Suc)
  with ex kj show ?case by (intro exI [of _ "Suc k"]) auto
next
  case (Suc n)
  then have kj: "k < j" by simp
  then have kl: "k < length ps" using j by simp
  have g: "gpl k (market_cursor ps k) = Inr (Some (ps ! k))"
    using serves kl by (simp add: market_serves_def)
  have p: "py_get (paging (ps ! k)) ''nextPageToken'' = Inr (next_page_token (ps ! k))"
    using wf kl by (intro paging_token) simp
  show ?case
  proof (cases "market_exhausted ps k")
    case True
    then have t: "\<not> py_truthy (next_page_token (ps ! k))"
      by (simp add: market_exhausted_def)
    have "market_product_pages gpl k (market_cursor ps k)
            (concat (map offerMappingEntries (take k ps)))
           = Some (Inr (concat (map offerMappingEntries (take (Suc k) ps))))"
      using g p t kl by (subst market_product_pages.simps) (simp add: concat_take_Suc)
    with True kj show ?thesis by (intro exI [of _ "Suc k"]) auto
  next
    case False
    then have t: "py_truthy (next_page_token (ps ! k))"
      by (simp add: market_exhausted_def)
    have n: "n = j - Suc k" using Suc(2) by simp
    have "Suc k \<le> j" using kj by simp
    from Suc(1) [OF n this] obtain m where m: "Suc k < m" "m \<le> Suc j"
      "market_exhausted ps (m - 1)"
      "\<forall>i. Suc k \<le> i \<and> i < m - 1 \<longrightarrow> \<not> market_exhausted ps i"
      "market_product_pages gpl (Suc k) (market_cursor ps (Suc k))
          (concat (map offerMappingEntries (take (Suc k) ps)))
         = Some (Inr (concat (map offerMappingEntries (take m ps))))" by blast
    have "market_product_pages gpl k (market_cursor ps k)
            (concat (map offerMappingEntries (take k ps)))
        = market_product_pages gpl (Suc k) (market_cursor ps (Suc k))
            (concat (map offerMappingEntries (take (Suc k) ps)))"
      using g p t kl by (subst market_product_pages.simps) (simp add: concat_take_Suc)
    moreover have "\<forall>i. k \<le> i \<and> i < m - 1 \<longrightarrow> \<not> market_exhausted ps i"
    proof (intro allI impI)
      fix i assume "k \<le> i \<and> i < m - 1"
      then show "\<not> market_exhausted ps i"
        using False m(4) by (cases "i = k") auto
    qed
    ultimately show ?thesis using m by (intro exI [of _ m]) auto
  qed
qed

lemma market_offer_ids_loop_ok:
  "\<forall>x\<in>set xs. \<exists>d offer. x = PyDict d \<and> map_of d ''offer'' = Some (PyDict offer) \<Longrightarrow>
     \<exists>ids. market_offer_ids_loop xs acc = Inr (acc @ ids)
        \<and> map Inr ids
            = map (\<lambda>x. case py_get x ''offer'' of
                          Inl e \<Rightarrow> Inl e
                        | Inr offer \<Rightarrow> py_get offer ''shopSku'') xs"
proof (induction xs arbitrary: acc)
  case Nil
  then show ?case by simp
next
  case (Cons x xs)
  from Cons.prems have "\<exists>d offer. x = PyDict d \<and> map_of d ''offer'' = Some (PyDict offer)"
    by simp
  then obtain d offer where x: "x = PyDict d" "map_of d ''offer'' = Some (PyDict offer)"
    by blast
  obtain v where v: "py_get (PyDict offer) ''shopSku'' = Inr v" by simp
  have o: "py_get x ''offer'' = Inr (PyDict offer)" using x by simp
  have rest: "\<forall>x\<in>set xs. \<exists>d offer. x = PyDict d \<and> map_of d ''offer'' = Some (PyDict offer)"
    using Cons.prems by simp
  from Cons.IH [OF rest, of "acc @ [v]"] obtain ids where
    "market_offer_ids_loop xs (acc @ [v]) = Inr ((acc @ [v]) @ ids)"
    "map Inr ids
            = map (\<lambda>x. case py_get x ''offer'' of
                          Inl e \<Rightarrow> Inl e
                        | Inr offer \<Rightarrow> py_get offer ''shopSku'') xs"
    by blast
  with v o show ?case by (intro exI [of _ "v # ids"]) simp
qed

lemma market_get_offer_ids_returns:
  assumes "ps \<noteq> []" "market_serves gpl ps" "\<forall>p\<in>set ps. market_well_formed p"
    "market_exhausted ps (length ps - 1)"
  shows "\<exists>m ids. 0 < m \<and> m \<le> length ps \<and> market_exhausted ps (m - 1)
        \<and> (\<forall>i<m - 1. \<not> market_exhausted ps i)
        \<and> market_get_offer_ids gpl = Some (Inr ids)
        \<and> map Inr ids
            = map (\<lambda>x. case py_get x ''offer'' of
                          Inl e \<Rightarrow> Inl e
                        | Inr offer \<Rightarrow> py_get offer ''shopSku'')
                (concat (map offerMappingEntries (take m ps)))
        \<and> length ids = length (concat (map offerMappingEntries (take m ps)))"
proof -
  have j: "length ps - 1 < length ps" using assms(1) by simp
  from market_product_pages_run [OF assms(2) assms(3) j assms(4), of 0]
  obtain m where m: "0 < m" "m \<le> length ps" "market_exhausted ps (m - 1)"
    "\<forall>i. i < m - 1 \<longrightarrow> \<not> market_exhausted ps i"
    "market_product_pages gpl 0 (PyStr []) []
       = Some (Inr (concat (map offerMappingEntries (take m ps))))"
    using assms(1) by auto
  have "\<forall>x\<in>set (concat (map offerMappingEntries (take m ps))).
          \<exists>d offer. x = PyDict d \<and> map_of d ''offer'' = Some (PyDict offer)"
    using assms(3) by (auto simp: market_well_formed_def dest!: in_set_takeD)
  from market_offer_ids_loop_ok [OF this, of "[]"] obtain ids where
    ids: "market_offer_ids_loop (concat (map offerMappingEntries (take m ps))) [] = Inr ids"
    "map Inr ids
            = map (\<lambda>x. case py_get x ''offer'' of
                          Inl e \<Rightarrow> Inl e
                        | Inr offer \<Rightarrow> py_get offer ''shopSku'')
                (concat (map offerMappingEntries (take m ps)))"
    by auto
  have "market_get_offer_ids gpl = Some (Inr ids)"
    using m(5) ids(1) by (simp add: market_get_offer_ids_def)
  moreover have "length ids = length (concat (map offerMappingEntries (take m ps)))"
    using ids(2) by (metis length_map)
  ultimately show ?thesis using m ids(2) by blast
qed

lemma ozon_example_serves: "ozon_serves ozon_server_example ozon_pages_example"
  by (auto simp: ozon_serves_def ozon_server_example_def ozon_pages_example_def)

lemma market_example_serves:
  "market_serves (market_server_example campaign_id) [market_page_example]"
  by (simp add: market_serves_def market_server_example_def)

lemma market_get_offer_ids_example:
  "market_get_offer_ids (market_server_example campaign_id)
     = Some (Inr [PyStr ''136748'', PyStr ''73309''])"
  by (simp add: market_get_offer_ids_def market_product_pages.simps [of _ 0]
      market_server_example_def market_page_example_def)

lemma seller_get_offer_ids_twice:
  "seller_get_offer_ids ozon_server_twice = Some (Inr [PyStr ''73309'', PyStr ''73309''])"
  by (simp add: seller_get_offer_ids_def seller_product_pages.simps [of _ 0]
      ozon_server_twice_def ozon_page_twice_def)

lemma seller_get_offer_ids_example:
  "seller_get_offer_ids ozon_server_example = Some (Inr [PyStr ''136748'', PyStr ''73309''])"
  by (simp add: seller_get_offer_ids_def seller_product_pages.simps [of _ 0]
      seller_product_pages.simps [of _ "Suc 0"]
      ozon_server_example_def ozon_pages_example_def)

text \<open>
  C9. Let a non-empty finite sequence of well-formed pages be what the server answers,
  request after request, and let the last page carry the signal that the catalog is
  exhausted (Ozon: its \<^verbatim>\<open>total\<close> equals the number of entries accumulated through it;
  Yandex Market: its \<^verbatim>\<open>nextPageToken\<close> is false). Then \<^verbatim>\<open>get_offer_ids\<close> returns: it
  stops at the first page \<open>m\<close> that carries the signal, and its result has one
  identifier for each entry of the pages up to \<open>m\<close>, in order, the one \<^verbatim>\<open>.get\<close> reads in
  that entry.
\<close>

theorem get_offer_ids_terminates:
  "(ps \<noteq> [] \<and> ozon_serves gpl ps \<and> (\<forall>p\<in>set ps. ozon_well_formed p)
      \<and> ozon_exhausted ps (length ps - 1) \<longrightarrow>
      (\<exists>m ids. 0 < m \<and> m \<le> length ps \<and> ozon_exhausted ps (m - 1)
         \<and> (\<forall>i<m - 1. \<not> ozon_exhausted ps i)
         \<and> seller_get_offer_ids gpl = Some (Inr ids)
         \<and> map Inr ids = map (\<lambda>x. py_get x ''offer_id'') (concat (map items (take m ps)))
         \<and> length ids = length (concat (map items (take m ps)))))
   \<and> (qs \<noteq> [] \<and> market_serves mgpl qs \<and> (\<forall>p\<in>set qs. market_well_formed p)
      \<and> market_exhausted qs (length qs - 1) \<longrightarrow>
      (\<exists>m ids. 0 < m \<and> m \<le> length qs \<and> market_exhausted qs (m - 1)
         \<and> (\<forall>i<m - 1. \<not> market_exhausted qs i)
         \<and> market_get_offer_ids mgpl = Some (Inr ids)
         \<and> map Inr ids
             = map (\<lambda>x. case py_get x ''offer'' of
                           Inl e \<Rightarrow> Inl e
                         | Inr offer \<Rightarrow> py_get offer ''shopSku'')
                 (concat (map offerMappingEntries (take m qs)))
         \<and> length ids = length (concat (map offerMappingEntries (take m qs)))))"
  using seller_get_offer_ids_returns [of ps gpl] market_get_offer_ids_returns [of qs mgpl]
  by blast

theorem get_offer_ids_terminates_witness:
  "ozon_pages_example \<noteq> [] \<and> ozon_serves ozon_server_example ozon_pages_example
   \<and> ozon_exhausted ozon_pages_example (length ozon_pages_example - 1)
   \<and> [market_page_example] \<noteq> []
   \<and> market_serves (market_server_example ''FBS'') [market_page_example]
   \<and> market_exhausted [market_page_example] (length [market_page_example] - 1)
   \<and> (\<exists>m ids. 0 < m \<and> m \<le> length ozon_pages_example
         \<and> seller_get_offer_ids ozon_server_example = Some (Inr ids)
         \<and> length ids = length (concat (map items (take m ozon_pages_example))))
   \<and> (\<exists>m ids. 0 < m \<and> m \<le> length [market_page_example]
         \<and> market_get_offer_ids (market_server_example ''FBS'') = Some (Inr ids)
         \<and> length ids
             = length (concat (map offerMappingEntries (take m [market_page_example]))))
   \<and> seller_get_offer_ids ozon_server_example = Some (Inr [PyStr ''136748'', PyStr ''73309''])"
proof -
  have a1: "ozon_pages_example \<noteq> []" by (simp add: ozon_pages_example_def)
  have a2: "\<forall>p\<in>set ozon_pages_example. ozon_well_formed p"
    by (simp add: ozon_pages_example_def ozon_well_formed_def)
  have a3: "ozon_exhausted ozon_pages_example (length ozon_pages_example - 1)"
    by (simp add: ozon_pages_example_def ozon_exhausted_def)
  have b1: "[market_page_example] \<noteq> []" by simp
  have b2: "\<forall>p\<in>set [market_page_example]. market_well_formed p"
    by (simp add: market_page_example_def market_well_formed_def)
  have b3: "market_exhausted [market_page_example] (length [market_page_example] - 1)"
    by (simp add: market_exhausted_def next_page_token_def market_page_example_def)
  note t = get_offer_ids_terminates [of ozon_pages_example ozon_server_example
      "[market_page_example]" "market_server_example ''FBS''"]
  from t a1 ozon_example_serves a2 a3
  have c1: "\<exists>m ids. 0 < m \<and> m \<le> length ozon_pages_example
         \<and> seller_get_offer_ids ozon_server_example = Some (Inr ids)
         \<and> length ids = length (concat (map items (take m ozon_pages_example)))"
    by blast
  from t b1 market_example_serves [of "''FBS''"] b2 b3
  have c2: "\<exists>m ids. 0 < m \<and> m \<le> length [market_page_example]
         \<and> market_get_offer_ids (market_server_example ''FBS'') = Some (Inr ids)
         \<and> length ids
             = length (concat (map offerMappingEntries (take m [market_page_example])))"
    by blast
  from a1 ozon_example_serves a3 b1 market_example_serves [of "''FBS''"] b3 c1 c2
    seller_get_offer_ids_example
  show ?thesis by blast
qed

section \<open>The run of \<^verbatim>\<open>seller.main\<close>\<close>

lemma seller_prices_loop_none:
  "\<forall>w\<in>set F. watch_code w \<notin> set L \<Longrightarrow> seller_prices_loop F L acc = (Inr acc, L)"
  by (induction F arbitrary: acc) auto

lemma seller_prices_after_stocks:
  assumes "distinct ids" "seller_create_stocks F ids = (Inr stocks, ids')"
  shows "seller_create_prices F ids' = (Inr [], ids')"
proof -
  from assms(2) obtain new where "seller_stocks_loop F ids [] = (Inr new, ids')"
    by (auto simp: seller_create_stocks_def split: prod.splits sum.splits)
  from seller_stocks_loop_rest [OF assms(1) this]
  have "\<forall>w\<in>set F. watch_code w \<notin> set ids'" by auto
  then show ?thesis unfolding seller_create_prices_def by (rule seller_prices_loop_none)
qed

lemma submit_all_sent: "r \<in> set (fst (submit_all transport rs)) \<Longrightarrow> r \<in> set rs"
  by (induction rs) (auto split: if_splits prod.splits)

lemma submit_all_ok: "\<forall>r\<in>set rs. transport r \<Longrightarrow> submit_all transport rs = (rs, True)"
  by (induction rs) auto

lemma divide_lst_positive: "0 < n \<Longrightarrow> divide_lst lst n = Inr (divide_from lst (nat n) 0)"
  by (simp add: divide_lst_def)

lemma divide_lst_nil: "0 < n \<Longrightarrow> divide_lst [] n = Inr []"
  by (simp add: divide_lst_def divide_from_empty)

lemma seller_run_no_prices:
  assumes "\<forall>ids. fetched = Inr ids \<longrightarrow> distinct ids"
  shows "(prices_built (seller_run transport client_id fetched download) = None
           \<or> prices_built (seller_run transport client_id fetched download) = Some [])
    \<and> (\<forall>r\<in>set (sent (seller_run transport client_id fetched download)).
          \<not> is_price_request r)"
proof (cases fetched)
  case (Inl e)
  then show ?thesis by (simp add: seller_run_def)
next
  case fetched: (Inr ids)
  then have d: "distinct ids" using assms by simp
  show ?thesis
  proof (cases download)
    case (Inl e)
    with fetched show ?thesis by (simp add: seller_run_def)
  next
    case download: (Inr F)
    obtain res ids' where cs: "seller_create_stocks F ids = (res, ids')"
      by (cases "seller_create_stocks F ids")
    show ?thesis
    proof (cases res)
      case (Inl e)
      with fetched download cs show ?thesis by (simp add: seller_run_def)
    next
      case (Inr stocks)
      have cp: "seller_create_prices F ids' = (Inr [], ids')"
        using seller_prices_after_stocks [OF d] cs Inr by simp
      have dv: "divide_lst stocks 100 = Inr (divide_from stocks 100 0)"
        by (simp add: divide_lst_def)
      obtain sent1 ok where sa:
        "submit_all transport (map (StocksRequest client_id) (divide_from stocks 100 0))
           = (sent1, ok)"
        by (cases "submit_all transport
             (map (StocksRequest client_id) (divide_from stocks 100 0))")
      have s1: "\<forall>r\<in>set sent1. \<not> is_price_request r"
      proof
        fix r assume "r \<in> set sent1"
        then have "r \<in> set (fst (submit_all transport
            (map (StocksRequest client_id) (divide_from stocks 100 0))))"
          using sa by simp
        then have "r \<in> set (map (StocksRequest client_id) (divide_from stocks 100 0))"
          by (rule submit_all_sent)
        then obtain c where "r = StocksRequest client_id c" by auto
        then show "\<not> is_price_request r" by simp
      qed
      show ?thesis
      proof (cases ok)
        case False
        with fetched download cs Inr dv sa s1 show ?thesis by (simp add: seller_run_def)
      next
        case True
        with fetched download cs Inr dv sa s1 cp show ?thesis
          by (simp add: seller_run_def divide_lst_nil)
      qed
    qed
  qed
qed

lemma divide_lst_single:
  "lst \<noteq> [] \<Longrightarrow> int (length lst) \<le> n \<Longrightarrow> divide_lst lst n = Inr [lst]"
proof -
  assume a: "lst \<noteq> []" "int (length lst) \<le> n"
  then have n: "0 < n" by (cases lst) auto
  have "divide_from lst (nat n) 0 = take (nat n) (drop 0 lst) # divide_from lst (nat n) (0 + nat n)"
    using a n by (intro divide_from_step) auto
  moreover have "divide_from lst (nat n) (0 + nat n) = []"
    using a by (intro divide_from_empty) auto
  ultimately show ?thesis using a n by (simp add: divide_lst_def)
qed

text \<open>
  C3, as the code has it. When the catalog \<^verbatim>\<open>get_offer_ids\<close> returns has no identifier
  twice, the run of \<^verbatim>\<open>seller.main\<close> builds no price update: \<^verbatim>\<open>create_prices\<close> is not
  reached or returns the empty list, and no price request is sent.
\<close>

theorem seller_main_no_prices:
  assumes "\<forall>ids. seller_get_offer_ids gpl = Some (Inr ids) \<longrightarrow> distinct ids"
  shows "(prices_built (seller_main gpl transport client_id download) = None
           \<or> prices_built (seller_main gpl transport client_id download) = Some [])
    \<and> (\<forall>r\<in>set (sent (seller_main gpl transport client_id download)).
          \<not> is_price_request r)"
proof (cases "seller_get_offer_ids gpl")
  case None
  then show ?thesis by (simp add: seller_main_def)
next
  case (Some fetched)
  then have "\<forall>ids. fetched = Inr ids \<longrightarrow> distinct ids" using assms by simp
  from seller_run_no_prices [OF this] Some show ?thesis by (simp add: seller_main_def)
qed

theorem seller_main_no_prices_witness:
  "seller_get_offer_ids ozon_server_example = Some (Inr [PyStr ''136748'', PyStr ''73309''])
   \<and> distinct [PyStr ''136748'', PyStr ''73309'']
   \<and> (prices_built (seller_main ozon_server_example (\<lambda>r. True) ''id'' (Inr [watch_example]))
         = None
       \<or> prices_built (seller_main ozon_server_example (\<lambda>r. True) ''id'' (Inr [watch_example]))
         = Some [])
   \<and> seller_main ozon_server_example (\<lambda>r. True) ''id'' (Inr [watch_example])
       = \<lparr>sent = [StocksRequest ''id''
                    [PyDict [(''offer_id'', PyStr ''73309''), (''stock'', PyInt 2)],
                     PyDict [(''offer_id'', PyStr ''136748''), (''stock'', PyInt 0)]]],
          prices_built = Some [], outcome = Finished\<rparr>"
proof -
  have h: "\<forall>ids. seller_get_offer_ids ozon_server_example = Some (Inr ids) \<longrightarrow> distinct ids"
    by (simp add: seller_get_offer_ids_example)
  have p: "seller_create_prices [watch_example] [PyStr ''136748''] = (Inr [], [PyStr ''136748''])"
    by (simp add: seller_create_prices_def watch_code_example)
  have m: "seller_main ozon_server_example (\<lambda>r. True) ''id'' (Inr [watch_example])
       = \<lparr>sent = [StocksRequest ''id''
                    [PyDict [(''offer_id'', PyStr ''73309''), (''stock'', PyInt 2)],
                     PyDict [(''offer_id'', PyStr ''136748''), (''stock'', PyInt 0)]]],
          prices_built = Some [], outcome = Finished\<rparr>"
    by (simp add: seller_main_def seller_run_def seller_get_offer_ids_example
        seller_create_stocks_example p divide_lst_single divide_lst_nil)
  from seller_main_no_prices [OF h, of "\<lambda>r. True" "''id''" "Inr [watch_example]"]
  have "prices_built (seller_main ozon_server_example (\<lambda>r. True) ''id'' (Inr [watch_example]))
         = None
       \<or> prices_built (seller_main ozon_server_example (\<lambda>r. True) ''id'' (Inr [watch_example]))
         = Some []" by blast
  with m show ?thesis by (simp add: seller_get_offer_ids_example)
qed

text \<open>
  C3 as the spec states it fails for a catalog that lists an offer twice:
  \<^verbatim>\<open>create_stocks\<close> removes one occurrence, \<^verbatim>\<open>create_prices\<close> finds the other, and a price
  request is sent.
\<close>

theorem seller_main_prices_counterexample:
  "seller_main ozon_server_twice (\<lambda>r. True) ''id'' (Inr [watch_example])
     = \<lparr>sent = [StocksRequest ''id''
                  [PyDict [(''offer_id'', PyStr ''73309''), (''stock'', PyInt 2)],
                   PyDict [(''offer_id'', PyStr ''73309''), (''stock'', PyInt 0)]],
                PriceRequest ''id''
                  [PyDict [(''auto_action_enabled'', PyStr ''UNKNOWN''),
                           (''currency_code'', PyStr ''RUB''),
                           (''offer_id'', PyStr ''73309''),
                           (''old_price'', PyStr ''0''),
                           (''price'', PyStr ''38440'')]]],
        prices_built = Some [PyDict [(''auto_action_enabled'', PyStr ''UNKNOWN''),
                                     (''currency_code'', PyStr ''RUB''),
                                     (''offer_id'', PyStr ''73309''),
                                     (''old_price'', PyStr ''0''),
                                     (''price'', PyStr ''38440'')]],
        outcome = Finished\<rparr>"
proof -
  have s: "seller_create_stocks [watch_example] [PyStr ''73309'', PyStr ''73309'']
     = (Inr [PyDict [(''offer_id'', PyStr ''73309''), (''stock'', PyInt 2)],
             PyDict [(''offer_id'', PyStr ''73309''), (''stock'', PyInt 0)]],
        [PyStr ''73309''])"
    by (simp add: seller_create_stocks_def watch_code_example quantity_example)
  have p: "seller_create_prices [watch_example] [PyStr ''73309'']
     = (Inr [PyDict [(''auto_action_enabled'', PyStr ''UNKNOWN''),
                     (''currency_code'', PyStr ''RUB''),
                     (''offer_id'', PyStr ''73309''),
                     (''old_price'', PyStr ''0''),
                     (''price'', PyStr ''38440'')]],
        [PyStr ''73309''])"
    by (simp add: seller_create_prices_def watch_code_example price_example_value)
  show ?thesis
    by (simp add: seller_main_def seller_run_def seller_get_offer_ids_twice s p
        divide_lst_single)
qed

section \<open>The run of \<^verbatim>\<open>market.main\<close>\<close>

lemma market_campaign_sent:
  "(\<forall>r\<in>set (sent (market_campaign gpl transport now F campaign_id wh)).
      \<not> is_price_request r)
   \<and> prices_built (market_campaign gpl transport now F campaign_id wh) = None"
proof (cases "market_get_offer_ids gpl")
  case None
  then show ?thesis by (simp add: market_campaign_def)
next
  case (Some fetched)
  show ?thesis
  proof (cases fetched)
    case (Inl e)
    with Some show ?thesis by (simp add: market_campaign_def)
  next
    case (Inr ids)
    obtain res ids' where cs: "market_create_stocks now F ids wh = (res, ids')"
      by (cases "market_create_stocks now F ids wh")
    show ?thesis
    proof (cases res)
      case (Inl e)
      with Some Inr cs show ?thesis by (simp add: market_campaign_def)
    next
      case stocks: (Inr stocks)
      have dv: "divide_lst stocks 2000 = Inr (divide_from stocks 2000 0)"
        by (simp add: divide_lst_def)
      obtain sent1 ok where sa:
        "submit_all transport (map (StocksRequest campaign_id) (divide_from stocks 2000 0))
           = (sent1, ok)"
        by (cases "submit_all transport
             (map (StocksRequest campaign_id) (divide_from stocks 2000 0))")
      have s1: "\<forall>r\<in>set sent1. \<not> is_price_request r"
      proof
        fix r assume "r \<in> set sent1"
        then have "r \<in> set (fst (submit_all transport
            (map (StocksRequest campaign_id) (divide_from stocks 2000 0))))"
          using sa by simp
        then have "r \<in> set (map (StocksRequest campaign_id) (divide_from stocks 2000 0))"
          by (rule submit_all_sent)
        then obtain c where "r = StocksRequest campaign_id c" by auto
        then show "\<not> is_price_request r" by simp
      qed
      show ?thesis
        using Some Inr cs stocks dv sa s1
        by (cases ok) (simp_all add: market_campaign_def market_upload_prices_def)
    qed
  qed
qed

lemma market_campaign_ok:
  assumes "market_get_offer_ids gpl = Some (Inr ids)"
    "market_create_stocks now F ids wh = (Inr stocks, ids')" "\<forall>r. transport r"
  shows "market_campaign gpl transport now F campaign_id wh
     = \<lparr>sent = map (StocksRequest campaign_id) (divide_from stocks 2000 0),
        prices_built = None, outcome = Finished\<rparr>"
proof -
  have "submit_all transport (map (StocksRequest campaign_id) (divide_from stocks 2000 0))
      = (map (StocksRequest campaign_id) (divide_from stocks 2000 0), True)"
    using assms(3) by (intro submit_all_ok) simp
  then show ?thesis
    using assms(1,2)
    by (simp add: market_campaign_def divide_lst_def market_upload_prices_def)
qed

text \<open>
  C10. Whatever the feed, the catalogs, the transport and the clock, the run of
  \<^verbatim>\<open>market.main\<close> sends no price request, for neither campaign: the coroutine
  \<^verbatim>\<open>upload_prices\<close> returns is never awaited. The stock requests are sent: when the feed
  is there, both catalogs are fetched, both batches are built and the transport accepts
  the requests, the run sends the chunks of the FBS batch, then those of the DBS batch,
  and nothing else.
\<close>

theorem market_main_no_price_request:
  "(\<forall>r\<in>set (sent (market_main gpl transport clock download fbs dbs wfbs wdbs)).
      \<not> is_price_request r)
   \<and> (download = Inr F \<and> (\<forall>r. transport r)
       \<and> market_get_offer_ids (gpl fbs) = Some (Inr ids1)
       \<and> market_create_stocks (clock fbs) F ids1 wfbs = (Inr stocks1, rest1)
       \<and> market_get_offer_ids (gpl dbs) = Some (Inr ids2)
       \<and> market_create_stocks (clock dbs) F ids2 wdbs = (Inr stocks2, rest2) \<longrightarrow>
       (\<exists>chunks1 chunks2. concat chunks1 = stocks1 \<and> concat chunks2 = stocks2
          \<and> market_main gpl transport clock download fbs dbs wfbs wdbs
              = \<lparr>sent = map (StocksRequest fbs) chunks1 @ map (StocksRequest dbs) chunks2,
                 prices_built = None, outcome = Finished\<rparr>))"
proof (intro conjI impI)
  show "\<forall>r\<in>set (sent (market_main gpl transport clock download fbs dbs wfbs wdbs)).
      \<not> is_price_request r"
  proof (cases download)
    case (Inl e)
    then show ?thesis by (simp add: market_main_def)
  next
    case (Inr W)
    with market_campaign_sent [of "gpl fbs" transport "clock fbs" W fbs wfbs]
      market_campaign_sent [of "gpl dbs" transport "clock dbs" W dbs wdbs]
    show ?thesis by (auto simp: market_main_def Let_def)
  qed
next
  assume h: "download = Inr F \<and> (\<forall>r. transport r)
       \<and> market_get_offer_ids (gpl fbs) = Some (Inr ids1)
       \<and> market_create_stocks (clock fbs) F ids1 wfbs = (Inr stocks1, rest1)
       \<and> market_get_offer_ids (gpl dbs) = Some (Inr ids2)
       \<and> market_create_stocks (clock dbs) F ids2 wdbs = (Inr stocks2, rest2)"
  have c1: "market_campaign (gpl fbs) transport (clock fbs) F fbs wfbs
     = \<lparr>sent = map (StocksRequest fbs) (divide_from stocks1 2000 0),
        prices_built = None, outcome = Finished\<rparr>"
    using h by (intro market_campaign_ok) blast+
  have c2: "market_campaign (gpl dbs) transport (clock dbs) F dbs wdbs
     = \<lparr>sent = map (StocksRequest dbs) (divide_from stocks2 2000 0),
        prices_built = None, outcome = Finished\<rparr>"
    using h by (intro market_campaign_ok) blast+
  have "market_main gpl transport clock download fbs dbs wfbs wdbs
     = \<lparr>sent = map (StocksRequest fbs) (divide_from stocks1 2000 0)
               @ map (StocksRequest dbs) (divide_from stocks2 2000 0),
        prices_built = None, outcome = Finished\<rparr>"
    using h c1 c2 by (simp add: market_main_def Let_def)
  moreover have "concat (divide_from stocks1 2000 0) = stocks1"
    "concat (divide_from stocks2 2000 0) = stocks2"
    by (simp_all add: divide_from_concat)
  ultimately show "\<exists>chunks1 chunks2. concat chunks1 = stocks1 \<and> concat chunks2 = stocks2
          \<and> market_main gpl transport clock download fbs dbs wfbs wdbs
              = \<lparr>sent = map (StocksRequest fbs) chunks1 @ map (StocksRequest dbs) chunks2,
                 prices_built = None, outcome = Finished\<rparr>"
    by blast
qed

theorem market_main_no_price_request_witness:
  "(\<exists>chunks1 chunks2.
       concat chunks1 = market_stocks_example ''W1''
     \<and> concat chunks2 = market_stocks_example ''W2''
     \<and> market_main market_server_example (\<lambda>r. True) (\<lambda>c. clock_example)
          (Inr [watch_example]) ''FBS'' ''DBS'' ''W1'' ''W2''
         = \<lparr>sent = map (StocksRequest ''FBS'') chunks1 @ map (StocksRequest ''DBS'') chunks2,
            prices_built = None, outcome = Finished\<rparr>)
   \<and> market_main market_server_example (\<lambda>r. True) (\<lambda>c. clock_example)
        (Inr [watch_example]) ''FBS'' ''DBS'' ''W1'' ''W2''
       = \<lparr>sent = [StocksRequest ''FBS'' (market_stocks_example ''W1''),
                  StocksRequest ''DBS'' (market_stocks_example ''W2'')],
          prices_built = None, outcome = Finished\<rparr>"
proof -
  have h: "Inr [watch_example] = (Inr [watch_example] :: error + watch list)
       \<and> (\<forall>r::request. True)
       \<and> market_get_offer_ids (market_server_example ''FBS'')
           = Some (Inr [PyStr ''136748'', PyStr ''73309''])
       \<and> market_create_stocks clock_example [watch_example]
            [PyStr ''136748'', PyStr ''73309''] ''W1''
           = (Inr (market_stocks_example ''W1''), [PyStr ''136748''])
       \<and> market_get_offer_ids (market_server_example ''DBS'')
           = Some (Inr [PyStr ''136748'', PyStr ''73309''])
       \<and> market_create_stocks clock_example [watch_example]
            [PyStr ''136748'', PyStr ''73309''] ''W2''
           = (Inr (market_stocks_example ''W2''), [PyStr ''136748''])"
    by (simp add: market_get_offer_ids_example market_create_stocks_example)
  from market_main_no_price_request
      [where gpl = market_server_example and transport = "\<lambda>r. True"
         and clock = "\<lambda>c. clock_example" and download = "Inr [watch_example]"
         and F = "[watch_example]" and fbs = "''FBS''" and dbs = "''DBS''"
         and wfbs = "''W1''" and wdbs = "''W2''"
         and ?ids1.0 = "[PyStr ''136748'', PyStr ''73309'']"
         and ?ids2.0 = "[PyStr ''136748'', PyStr ''73309'']"
         and ?stocks1.0 = "market_stocks_example ''W1''"
         and ?stocks2.0 = "market_stocks_example ''W2''"
         and ?rest1.0 = "[PyStr ''136748'']" and ?rest2.0 = "[PyStr ''136748'']"] h
  have e: "\<exists>chunks1 chunks2.
       concat chunks1 = market_stocks_example ''W1''
     \<and> concat chunks2 = market_stocks_example ''W2''
     \<and> market_main market_server_example (\<lambda>r. True) (\<lambda>c. clock_example)
          (Inr [watch_example]) ''FBS'' ''DBS'' ''W1'' ''W2''
         = \<lparr>sent = map (StocksRequest ''FBS'') chunks1 @ map (StocksRequest ''DBS'') chunks2,
            prices_built = None, outcome = Finished\<rparr>"
    by blast
  have d: "divide_from (market_stocks_example wh) 2000 0 = [market_stocks_example wh]" for wh
  proof -
    have "divide_lst (market_stocks_example wh) 2000 = Inr [market_stocks_example wh]"
      by (rule divide_lst_single) (simp_all add: market_stocks_example_def)
    then show ?thesis by (simp add: divide_lst_def)
  qed
  have c: "market_campaign (market_server_example cid) (\<lambda>r. True) clock_example
             [watch_example] cid wh
     = \<lparr>sent = [StocksRequest cid (market_stocks_example wh)],
        prices_built = None, outcome = Finished\<rparr>" for cid wh
  proof -
    have "\<forall>r::request. (\<lambda>r. True) r" by simp
    from market_campaign_ok
      [OF market_get_offer_ids_example market_create_stocks_example this]
    show ?thesis by (simp add: d)
  qed
  have "market_main market_server_example (\<lambda>r. True) (\<lambda>c. clock_example)
        (Inr [watch_example]) ''FBS'' ''DBS'' ''W1'' ''W2''
       = \<lparr>sent = [StocksRequest ''FBS'' (market_stocks_example ''W1''),
                  StocksRequest ''DBS'' (market_stocks_example ''W2'')],
          prices_built = None, outcome = Finished\<rparr>"
    by (simp add: market_main_def Let_def c)
  with e show ?thesis by blast
qed

end
